theory Spec2Isabelle
  imports Complex_Main
begin

section \<open>The persistent store\<close>

text \<open>
  The program keeps two SQLite tables, \<open>users\<close> and \<open>codes\<close>, each with a primary
  key, behind one global connection \<open>DB\<close>. A table with a primary key is a finite map
  from the key to the remaining columns. Dates and timestamps are ISO strings, a nullable
  column is an \<open>option\<close>. The store of the model is what the connection reads: a write
  made by a helper that raises before its \<open>commit\<close> stays pending on the connection and
  is read by every later helper.

  Python integers are unbounded, an SQLite \<open>INTEGER\<close> has 64 bits: \<open>execute\<close> raises
  \<open>OverflowError\<close> when it binds an integer parameter outside the signed 64-bit range,
  before the statement runs. The model checks every computed or stored value that a
  statement binds. User identifiers are Telegram identifiers, which fit; they are not
  checked.
\<close>

record user_row =
  credits :: int
  last_topup_date :: "string option"

record code_row =
  amount :: int
  created_by :: int
  created_at :: string
  used_by :: "int option"
  used_at :: "string option"

record db =
  users :: "int \<rightharpoonup> user_row"
  codes :: "string \<rightharpoonup> code_row"

text \<open>The store right after \<open>init_db\<close> has created both tables.\<close>

definition init_db :: db where
  "init_db = \<lparr>users = Map.empty, codes = Map.empty\<rparr>"

definition DAILY_FREE_CREDITS :: int where
  "DAILY_FREE_CREDITS = 30"

definition CREDIT_COST_PER_LOOKUP :: int where
  "CREDIT_COST_PER_LOOKUP = 1"

text \<open>The integers that \<open>sqlite3\<close> binds to a parameter.\<close>

definition fits_int64 :: "int \<Rightarrow> bool" where
  "fits_int64 n = (- (2 ^ 63) \<le> n \<and> n \<le> 2 ^ 63 - 1)"

text \<open>
  The exceptions of the model: the INSERT of a primary key that is already in the table,
  the binding of an integer outside 64 bits, and the \<open>ValueError\<close> that the \<open>/code\<close>
  handler raises on an amount that is not positive.
\<close>

datatype error = IntegrityError | OverflowError | ValueError

section \<open>The database helpers\<close>

text \<open>
  A helper takes the store and returns the store it leaves, with its return value or the
  exception it raises. The clock (\<open>date.today()\<close>, \<open>now_iso()\<close>) and the random token
  of \<open>secrets.token_urlsafe\<close> are arguments.
\<close>

definition ensure_user_sync :: "db \<Rightarrow> int \<Rightarrow> db" where
  "ensure_user_sync d user_id =
     (case users d user_id of
        None \<Rightarrow> d\<lparr>users := (users d)(user_id \<mapsto> \<lparr>credits = 0, last_topup_date = None\<rparr>)\<rparr>
      | Some r \<Rightarrow> d)"

text \<open>The INSERT of a new account binds the constant 30, the UPDATE binds the sum.\<close>

definition topup_if_needed_sync :: "string \<Rightarrow> db \<Rightarrow> int \<Rightarrow> db \<times> (error + int)" where
  "topup_if_needed_sync today d user_id =
     (case users d user_id of
        None \<Rightarrow>
          (d\<lparr>users := (users d)(user_id \<mapsto>
               \<lparr>credits = DAILY_FREE_CREDITS, last_topup_date = Some today\<rparr>)\<rparr>,
           Inr DAILY_FREE_CREDITS)
      | Some r \<Rightarrow>
          if last_topup_date r \<noteq> Some today then
            (let new_credits = credits r + DAILY_FREE_CREDITS
             in if fits_int64 new_credits
                then (d\<lparr>users := (users d)(user_id \<mapsto>
                          r\<lparr>credits := new_credits, last_topup_date := Some today\<rparr>)\<rparr>,
                      Inr new_credits)
                else (d, Inl OverflowError))
          else (d, Inr (credits r)))"

definition get_credits_sync :: "db \<Rightarrow> int \<Rightarrow> int" where
  "get_credits_sync d user_id =
     (case users d user_id of None \<Rightarrow> 0 | Some r \<Rightarrow> credits r)"

definition change_credits_sync :: "db \<Rightarrow> int \<Rightarrow> int \<Rightarrow> db \<times> (error + int)" where
  "change_credits_sync d user_id delta =
     (case users d user_id of
        None \<Rightarrow>
          if fits_int64 (max 0 delta)
          then (d\<lparr>users := (users d)(user_id \<mapsto>
                    \<lparr>credits = max 0 delta, last_topup_date = None\<rparr>)\<rparr>,
                Inr (max 0 delta))
          else (d, Inl OverflowError)
      | Some r \<Rightarrow>
          (let new = max 0 (credits r + delta)
           in if fits_int64 new
              then (d\<lparr>users := (users d)(user_id \<mapsto> r\<lparr>credits := new\<rparr>)\<rparr>, Inr new)
              else (d, Inl OverflowError)))"

text \<open>
  The amount is bound first; then \<open>codes.code\<close> is the primary key, and the INSERT of a
  token that is already in the table raises. Neither exception stores anything.
\<close>

definition generate_code_sync ::
  "string \<Rightarrow> string \<Rightarrow> db \<Rightarrow> int \<Rightarrow> int \<Rightarrow> db \<times> (error + string)" where
  "generate_code_sync token now d amt creator =
     (if \<not> fits_int64 amt then (d, Inl OverflowError)
      else
        (case codes d token of
           Some r \<Rightarrow> (d, Inl IntegrityError)
         | None \<Rightarrow>
             (d\<lparr>codes := (codes d)(token \<mapsto>
                  \<lparr>amount = amt, created_by = creator, created_at = now,
                   used_by = None, used_at = None\<rparr>)\<rparr>,
              Inr token)))"

text \<open>
  \<open>redeem_code_sync\<close> returns a pair: \<open>False\<close> with a message, or \<open>True\<close> with the
  amount. The code is marked used before the credits are written: when the write of the
  credits raises, the mark stays.
\<close>

datatype redeem_info = Msg string | Amount int

definition redeem_code_sync ::
  "string \<Rightarrow> db \<Rightarrow> string \<Rightarrow> int \<Rightarrow> db \<times> (error + bool \<times> redeem_info)" where
  "redeem_code_sync now d code user_id =
     (case codes d code of
        None \<Rightarrow> (d, Inr (False, Msg ''Code not found''))
      | Some r \<Rightarrow>
          if used_by r \<noteq> None then (d, Inr (False, Msg ''Code already used''))
          else
            (let d1 = d\<lparr>codes := (codes d)(code \<mapsto>
                          r\<lparr>used_by := Some user_id, used_at := Some now\<rparr>)\<rparr>
             in case users d1 user_id of
                  None \<Rightarrow>
                    if fits_int64 (amount r)
                    then (d1\<lparr>users := (users d1)(user_id \<mapsto>
                               \<lparr>credits = amount r, last_topup_date = None\<rparr>)\<rparr>,
                          Inr (True, Amount (amount r)))
                    else (d1, Inl OverflowError)
                | Some rr \<Rightarrow>
                    (let newc = credits rr + amount r
                     in if fits_int64 newc
                        then (d1\<lparr>users := (users d1)(user_id \<mapsto> rr\<lparr>credits := newc\<rparr>)\<rparr>,
                              Inr (True, Amount (amount r)))
                        else (d1, Inl OverflowError))))"

text \<open>
  The coroutines take \<open>DB_LOCK\<close> around the helper. Two of them call
  \<open>ensure_user_sync\<close> first, under the same lock.
\<close>

definition ensure_user :: "db \<Rightarrow> int \<Rightarrow> db" where
  "ensure_user d user_id = ensure_user_sync d user_id"

definition topup_if_needed :: "string \<Rightarrow> db \<Rightarrow> int \<Rightarrow> db \<times> (error + int)" where
  "topup_if_needed today d user_id = topup_if_needed_sync today d user_id"

definition get_credits :: "db \<Rightarrow> int \<Rightarrow> db \<times> int" where
  "get_credits d user_id =
     (let d1 = ensure_user_sync d user_id in (d1, get_credits_sync d1 user_id))"

definition change_credits :: "db \<Rightarrow> int \<Rightarrow> int \<Rightarrow> db \<times> (error + int)" where
  "change_credits d user_id delta =
     change_credits_sync (ensure_user_sync d user_id) user_id delta"

definition generate_code ::
  "string \<Rightarrow> string \<Rightarrow> db \<Rightarrow> int \<Rightarrow> int \<Rightarrow> db \<times> (error + string)" where
  "generate_code token now d amt creator = generate_code_sync token now d amt creator"

definition redeem_code ::
  "string \<Rightarrow> db \<Rightarrow> string \<Rightarrow> int \<Rightarrow> db \<times> (error + bool \<times> redeem_info)" where
  "redeem_code now d code user_id = redeem_code_sync now d code user_id"

text \<open>
  \<open>generate_code\<close> has one caller, the \<open>/code\<close> handler, which calls it behind a guard.
  These are the lines of the handler from the parsed amount on: an amount that is not
  positive raises \<open>ValueError\<close>, which the handler answers with a message; a positive
  amount goes to \<open>generate_code\<close>.
\<close>

definition code_cmd_issue ::
  "string \<Rightarrow> string \<Rightarrow> db \<Rightarrow> int \<Rightarrow> int \<Rightarrow> db \<times> (error + string)" where
  "code_cmd_issue token now d amt user_id =
     (if amt \<le> 0 then (d, Inl ValueError)
      else generate_code token now d amt user_id)"

text \<open>The date of the last daily grant of a user, null for an absent account too.\<close>

definition last_topup :: "db \<Rightarrow> int \<Rightarrow> string option" where
  "last_topup d user_id =
     (case users d user_id of None \<Rightarrow> None | Some r \<Rightarrow> last_topup_date r)"

section \<open>Sequences of operations\<close>

text \<open>
  One call of a coroutine, with the clock value or token it reads; a code is issued
  the way the program issues one, through the guard of the \<open>/code\<close> handler. The store
  after a call is the store the call leaves, whether it returns or raises.
\<close>

datatype op =
    EnsureUser int
  | TopupIfNeeded string int
  | GetCredits int
  | ChangeCredits int int
  | IssueCode string string int int
  | RedeemCode string string int

fun apply_op :: "op \<Rightarrow> db \<Rightarrow> db" where
  "apply_op (EnsureUser u) d = ensure_user d u"
| "apply_op (TopupIfNeeded today u) d = fst (topup_if_needed today d u)"
| "apply_op (GetCredits u) d = fst (get_credits d u)"
| "apply_op (ChangeCredits u delta) d = fst (change_credits d u delta)"
| "apply_op (IssueCode token now amt creator) d = fst (code_cmd_issue token now d amt creator)"
| "apply_op (RedeemCode now code u) d = fst (redeem_code now d code u)"

definition run_ops :: "op list \<Rightarrow> db \<Rightarrow> db" where
  "run_ops ops d = fold apply_op ops d"

fun redeems :: "string \<Rightarrow> op \<Rightarrow> bool" where
  "redeems c (RedeemCode now code u) = (code = c)"
| "redeems c _ = False"

definition credits_ok :: "db \<Rightarrow> bool" where
  "credits_ok d = (\<forall>u r. users d u = Some r \<longrightarrow> 0 \<le> credits r)"

definition amounts_ok :: "db \<Rightarrow> bool" where
  "amounts_ok d = (\<forall>c r. codes d c = Some r \<longrightarrow> 0 \<le> amount r)"

section \<open>Text of a command argument\<close>

text \<open>
  A Python \<open>str\<close> is modelled as a list of characters with code points below 256;
  other characters are outside the model. Among these, \<open>str.isdigit\<close> holds of \<open>0\<close> to
  \<open>9\<close> and of the superscripts one, two and three, which have no decimal value, and
  \<open>str.strip\<close> and \<open>int\<close> take as whitespace the control characters \<open>0x09\<close> to
  \<open>0x0D\<close> and \<open>0x1C\<close> to \<open>0x1F\<close>, the space, \<open>0x85\<close> and \<open>0xA0\<close>.
\<close>

definition digit_of :: "char \<Rightarrow> nat option" where
  "digit_of c =
     map_of [(CHR ''0'', 0), (CHR ''1'', 1), (CHR ''2'', 2), (CHR ''3'', 3), (CHR ''4'', 4),
             (CHR ''5'', 5), (CHR ''6'', 6), (CHR ''7'', 7), (CHR ''8'', 8), (CHR ''9'', 9)] c"

definition isdigit :: "char \<Rightarrow> bool" where
  "isdigit c = (digit_of c \<noteq> None \<or> c \<in> set [CHR 0xB2, CHR 0xB3, CHR 0xB9])"

definition isspace :: "char \<Rightarrow> bool" where
  "isspace c = (c \<in> set [CHR '' '', CHR 0x09, CHR 0x0A, CHR 0x0B, CHR 0x0C, CHR 0x0D,
                         CHR 0x1C, CHR 0x1D, CHR 0x1E, CHR 0x1F, CHR 0x85, CHR 0xA0])"

definition strip :: "string \<Rightarrow> string" where
  "strip s = rev (dropWhile isspace (rev (dropWhile isspace s)))"

text \<open>
  \<open>int(s)\<close> on a string: surrounding whitespace, an optional sign, then decimal digits,
  where single underscores may separate digits. Anything else raises \<open>ValueError\<close>,
  here \<open>None\<close>. \<open>digits_value acc s\<close> reads what follows a digit.
\<close>

fun digits_value :: "nat \<Rightarrow> string \<Rightarrow> nat option" where
  "digits_value acc [] = Some acc"
| "digits_value acc [c] =
     (case digit_of c of None \<Rightarrow> None | Some v \<Rightarrow> Some (10 * acc + v))"
| "digits_value acc (c # c' # cs) =
     (if c = CHR ''_'' then
        (case digit_of c' of None \<Rightarrow> None | Some v \<Rightarrow> digits_value (10 * acc + v) cs)
      else
        (case digit_of c of None \<Rightarrow> None | Some v \<Rightarrow> digits_value (10 * acc + v) (c' # cs)))"

definition unsigned_value :: "string \<Rightarrow> nat option" where
  "unsigned_value s =
     (case s of
        [] \<Rightarrow> None
      | c # cs \<Rightarrow> (case digit_of c of None \<Rightarrow> None | Some v \<Rightarrow> digits_value v cs))"

definition py_int :: "string \<Rightarrow> int option" where
  "py_int s =
     (case strip s of
        [] \<Rightarrow> None
      | c # cs \<Rightarrow>
          if c = CHR ''-'' then map_option (\<lambda>n. - int n) (unsigned_value cs)
          else if c = CHR ''+'' then map_option int (unsigned_value cs)
          else map_option int (unsigned_value (c # cs)))"

section \<open>The response of the lookup API\<close>

text \<open>
  A decoded JSON value. An object is the list of its members; \<open>map_of\<close> reads a key as
  \<open>dict.get\<close> does, for a list that holds each key once. Numbers matter through their
  truth value only.
\<close>

datatype json =
    JNull
  | JBool bool
  | JNum real
  | JStr string
  | JList "json list"
  | JDict "(string \<times> json) list"

text \<open>
  What \<open>session.get\<close> and \<open>resp.json()\<close> give: an exception (a timeout, a refused
  connection), or a status with the decoded body, \<open>None\<close> when decoding raises.
\<close>

datatype http = Http_error | Http_response int "json option"

text \<open>The truth value Python gives a decoded JSON value; \<open>None\<close> is a missing key.\<close>

fun truthy :: "json \<Rightarrow> bool" where
  "truthy JNull = False"
| "truthy (JBool b) = b"
| "truthy (JNum x) = (x \<noteq> 0)"
| "truthy (JStr s) = (s \<noteq> [])"
| "truthy (JList xs) = (xs \<noteq> [])"
| "truthy (JDict kvs) = (kvs \<noteq> [])"

definition truthy_opt :: "json option \<Rightarrow> bool" where
  "truthy_opt v = (case v of None \<Rightarrow> False | Some j \<Rightarrow> truthy j)"

text \<open>
  The messages sent with \<open>reply_text\<close>, one constructor for each message of the source,
  with the values it formats in.
\<close>

datatype reply =
    Usage_num
  | Bad_number
  | Insufficient_credits int
  | Looking_up string
  | Api_status int
  | No_result
  | Api_error "json option"
  | Unexpected_structure
  | Unexpected_format
  | Record_block nat "(string \<times> json) list"
  | Footer_admin
  | Footer int
  | Error_calling_api
  | Only_admin_create
  | Usage_code
  | Provide_positive
  | Code_created string int

text \<open>
  What a handler does besides changing the store, in order: a message to the user, the
  HTTP request for a number, an exception that leaves the handler.
\<close>

datatype event = Reply reply | HttpGet string | Raise error

definition record_keys :: "string list" where
  "record_keys = [''mobile'', ''alt_mobile'', ''name'', ''father_name'', ''circle'',
                  ''id_number'', ''address'', ''email'']"

definition single_record_keys :: "string list" where
  "single_record_keys = [''mobile'', ''name'', ''alt_mobile'', ''id_number'', ''address'',
                         ''email'']"

text \<open>
  The unwrapping of the body: \<open>Inr\<close> the list of records, \<open>Inl\<close> the message after which
  the handler returns.
\<close>

definition unwrap_data :: "json \<Rightarrow> reply + json list" where
  "unwrap_data data =
     (case data of
        JDict kvs \<Rightarrow>
          (case map_of kvs ''data'' of
             Some (JList inner) \<Rightarrow> Inr inner
           | Some (JDict inner) \<Rightarrow> Inr [JDict inner]
           | _ \<Rightarrow>
               if list_ex (\<lambda>k. map_of kvs k \<noteq> None) single_record_keys then Inr [data]
               else if map_of kvs ''message'' = Some (JStr ''No records found'')
                 then Inl No_result
               else if map_of kvs ''status'' = Some (JStr ''error'')
                 then Inl (Api_error (map_of kvs ''message''))
               else Inl Unexpected_structure)
      | JList xs \<Rightarrow> Inr xs
      | _ \<Rightarrow> Inl Unexpected_format)"

text \<open>A record is kept when it is an object with a true value under one of the keys.\<close>

definition usable :: "json \<Rightarrow> bool" where
  "usable r =
     (case r of
        JDict kvs \<Rightarrow> list_ex (\<lambda>k. truthy_opt (map_of kvs k)) record_keys
      | _ \<Rightarrow> False)"

text \<open>
  Everything of the \<open>try\<close> block that precedes the deduction: \<open>Inl\<close> the message after
  which the handler returns (the \<open>except\<close> clause included), \<open>Inr\<close> the non-empty
  \<open>filtered_list\<close>.
\<close>

definition parse_response :: "http \<Rightarrow> reply + json list" where
  "parse_response resp =
     (case resp of
        Http_error \<Rightarrow> Inl Error_calling_api
      | Http_response status body \<Rightarrow>
          if status \<noteq> 200 then Inl (Api_status status)
          else
            (case body of
               None \<Rightarrow> Inl Error_calling_api
             | Some data \<Rightarrow>
                 (case unwrap_data data of
                    Inl r \<Rightarrow> Inl r
                  | Inr data_list \<Rightarrow>
                      (let filtered_list = filter usable data_list
                       in if filtered_list = [] then Inl No_result else Inr filtered_list))))"

text \<open>
  \<open>style_record_block\<close> calls \<open>.strip()\<close> on \<open>rec.get(k) or ""\<close> for each key: a true
  value that is not a string raises, here \<open>None\<close>.
\<close>

definition field_ok :: "json option \<Rightarrow> bool" where
  "field_ok v = (case v of Some (JStr s) \<Rightarrow> True | _ \<Rightarrow> \<not> truthy_opt v)"

definition style_record_block :: "json \<Rightarrow> nat \<Rightarrow> reply option" where
  "style_record_block r idx =
     (case r of
        JDict kvs \<Rightarrow>
          if list_all (\<lambda>k. field_ok (map_of kvs k)) record_keys
          then Some (Record_block idx kvs) else None
      | _ \<Rightarrow> None)"

text \<open>The loop that sends the blocks; \<open>False\<close> when a block raised.\<close>

fun send_results :: "nat \<Rightarrow> json list \<Rightarrow> event list \<times> bool" where
  "send_results idx [] = ([], True)"
| "send_results idx (r # rs) =
     (case style_record_block r idx of
        None \<Rightarrow> ([], False)
      | Some block \<Rightarrow>
          (let (es, ok) = send_results (Suc idx) rs in (Reply block # es, ok)))"

section \<open>The command handlers\<close>

text \<open>
  A handler takes the configured \<open>ADMIN_IDS\<close>, what it reads from the clock, the token
  generator or the network, the store, the caller and \<open>context.args\<close>, and returns the
  store it leaves with what it did. Sending a message is taken to succeed.
\<close>

definition code_cmd ::
  "int list \<Rightarrow> string \<Rightarrow> string \<Rightarrow> db \<Rightarrow> int \<Rightarrow> string list \<Rightarrow> db \<times> event list" where
  "code_cmd ADMIN_IDS token now d user_id args =
     (if user_id \<notin> set ADMIN_IDS then (d, [Reply Only_admin_create])
      else
        (case args of
           [] \<Rightarrow> (d, [Reply Usage_code])
         | arg # rest \<Rightarrow>
             (case py_int arg of
                None \<Rightarrow> (d, [Reply Provide_positive])
              | Some amt \<Rightarrow>
                  (case code_cmd_issue token now d amt user_id of
                     (d', Inl ValueError) \<Rightarrow> (d', [Reply Provide_positive])
                   | (d', Inl e) \<Rightarrow> (d', [Raise e])
                   | (d', Inr t) \<Rightarrow> (d', [Reply (Code_created t amt)])))))"

text \<open>
  The end of the \<open>try\<close> block of \<open>num_cmd\<close>: the blocks and the footer, which reads
  the balance of a caller who is not an admin.
\<close>

definition send_all :: "bool \<Rightarrow> json list \<Rightarrow> db \<Rightarrow> int \<Rightarrow> db \<times> event list" where
  "send_all is_admin filtered_list d user_id =
     (let (es, ok) = send_results 1 filtered_list
      in if \<not> ok then (d, es @ [Reply Error_calling_api])
         else if is_admin then (d, es @ [Reply Footer_admin])
         else (let (d', rem) = get_credits d user_id in (d', es @ [Reply (Footer rem)])))"

text \<open>
  The deduction, for a caller who is not an admin, once \<open>filtered_list\<close> is known not
  to be empty. An exception of \<open>change_credits\<close> is caught by the \<open>except\<close> clause.
\<close>

definition deduct_and_send :: "bool \<Rightarrow> json list \<Rightarrow> db \<Rightarrow> int \<Rightarrow> db \<times> event list" where
  "deduct_and_send is_admin filtered_list d user_id =
     (if \<not> is_admin then
        (case change_credits d user_id (- CREDIT_COST_PER_LOOKUP) of
           (d', Inl e) \<Rightarrow> (d', [Reply Error_calling_api])
         | (d', Inr n) \<Rightarrow> send_all is_admin filtered_list d' user_id)
      else send_all is_admin filtered_list d user_id)"

text \<open>The part of \<open>num_cmd\<close> after the balance check: the request and what follows.\<close>

definition lookup ::
  "bool \<Rightarrow> (string \<Rightarrow> http) \<Rightarrow> string \<Rightarrow> db \<Rightarrow> int \<Rightarrow> db \<times> event list" where
  "lookup is_admin session_get query_num d user_id =
     (let (d', es) =
            (case parse_response (session_get query_num) of
               Inl r \<Rightarrow> (d, [Reply r])
             | Inr filtered_list \<Rightarrow> deduct_and_send is_admin filtered_list d user_id)
      in (d', Reply (Looking_up query_num) # HttpGet query_num # es))"

text \<open>
  \<open>ensure_user\<close> and \<open>topup_if_needed\<close> are called for every caller, before the
  \<open>try\<close> block: an exception of \<open>topup_if_needed\<close> leaves the handler.
\<close>

definition num_cmd ::
  "int list \<Rightarrow> string \<Rightarrow> (string \<Rightarrow> http) \<Rightarrow> db \<Rightarrow> int \<Rightarrow> string list \<Rightarrow> db \<times> event list" where
  "num_cmd ADMIN_IDS today session_get d user_id args =
     (case args of
        [] \<Rightarrow> (d, [Reply Usage_num])
      | arg # rest \<Rightarrow>
          (let raw_num = strip arg;
               num_digits = filter isdigit raw_num
           in if length num_digits \<noteq> 10 \<and> length num_digits \<noteq> 12
              then (d, [Reply Bad_number])
              else
                (let is_admin = (user_id \<in> set ADMIN_IDS);
                     d1 = ensure_user d user_id
                 in case topup_if_needed today d1 user_id of
                      (d2, Inl e) \<Rightarrow> (d2, [Raise e])
                    | (d2, Inr n) \<Rightarrow>
                        if \<not> is_admin then
                          (let (d3, credits) = get_credits d2 user_id
                           in if credits < CREDIT_COST_PER_LOOKUP
                              then (d3, [Reply (Insufficient_credits credits)])
                              else lookup is_admin session_get num_digits d3 user_id)
                        else lookup is_admin session_get num_digits d2 user_id)))"

section \<open>Concurrent redemptions\<close>

text \<open>
  \<open>redeem_code\<close> is \<open>async with DB_LOCK: return redeem_code_sync(code, user_id)\<close>. A
  call waits for the lock, holds it while the helper runs, and gives it back when it
  leaves the block, with the value or the exception of the helper. The event loop runs
  one call at a time and switches between calls where they wait; the model lets a
  schedule pick the call that takes the next step, at every step, which covers every
  order the event loop can produce. A call that waits for a lock that is held does not
  move.
\<close>

datatype phase =
    Waiting
  | Holding
  | Ran "error + bool \<times> redeem_info"
  | Finished "error + bool \<times> redeem_info"

record call =
  caller :: int
  clock :: string
  phase :: phase

record loop =
  DB_LOCK :: bool
  DB :: db
  calls :: "call list"

definition step_call :: "string \<Rightarrow> nat \<Rightarrow> loop \<Rightarrow> loop" where
  "step_call code i s =
     (if length (calls s) \<le> i then s
      else
        (let t = calls s ! i
         in case phase t of
              Waiting \<Rightarrow>
                if DB_LOCK s then s
                else s\<lparr>DB_LOCK := True, calls := (calls s)[i := t\<lparr>phase := Holding\<rparr>]\<rparr>
            | Holding \<Rightarrow>
                (let (d', res) = redeem_code_sync (clock t) (DB s) code (caller t)
                 in s\<lparr>DB := d', calls := (calls s)[i := t\<lparr>phase := Ran res\<rparr>]\<rparr>)
            | Ran res \<Rightarrow>
                s\<lparr>DB_LOCK := False, calls := (calls s)[i := t\<lparr>phase := Finished res\<rparr>]\<rparr>
            | Finished res \<Rightarrow> s))"

definition run_schedule :: "string \<Rightarrow> nat list \<Rightarrow> loop \<Rightarrow> loop" where
  "run_schedule code schedule s = fold (step_call code) schedule s"

text \<open>The loop with the calls of the given users, none of which has started.\<close>

definition start :: "db \<Rightarrow> (int \<times> string) list \<Rightarrow> loop" where
  "start d users_and_clocks =
     \<lparr>DB_LOCK = False, DB = d,
      calls = map (\<lambda>(u, now). \<lparr>caller = u, clock = now, phase = Waiting\<rparr>) users_and_clocks\<rparr>"

fun busy :: "phase \<Rightarrow> bool" where
  "busy Holding = True"
| "busy (Ran res) = True"
| "busy _ = False"

fun outcome :: "phase \<Rightarrow> (error + bool \<times> redeem_info) option" where
  "outcome (Ran res) = Some res"
| "outcome (Finished res) = Some res"
| "outcome _ = None"

fun finished :: "phase \<Rightarrow> bool" where
  "finished (Finished res) = True"
| "finished _ = False"

definition all_finished :: "loop \<Rightarrow> bool" where
  "all_finished s = list_all (\<lambda>t. finished (phase t)) (calls s)"

text \<open>
  What holds of the loop at every step, for a code row \<open>r\<close> that is unused in the store
  \<open>d\<close> the calls start from: the lock is held exactly while one call is between taking
  and returning it, and either no call has run the helper and the store is \<open>d\<close>, or one
  call has redeemed the code, the store is the one its helper left, and every other call
  that has run the helper found the code used.
\<close>

definition lock_ok :: "loop \<Rightarrow> bool" where
  "lock_ok s =
     ((DB_LOCK s \<longleftrightarrow> (\<exists>i<length (calls s). busy (phase (calls s ! i)))) \<and>
      (\<forall>i<length (calls s). \<forall>j<length (calls s).
         busy (phase (calls s ! i)) \<and> busy (phase (calls s ! j)) \<longrightarrow> i = j))"

definition none_ran :: "db \<Rightarrow> loop \<Rightarrow> bool" where
  "none_ran d s =
     ((\<forall>i<length (calls s). outcome (phase (calls s ! i)) = None) \<and> DB s = d)"

definition won :: "db \<Rightarrow> string \<Rightarrow> code_row \<Rightarrow> loop \<Rightarrow> nat \<Rightarrow> bool" where
  "won d code r s w =
     (w < length (calls s) \<and>
      outcome (phase (calls s ! w)) = Some (Inr (True, Amount (amount r))) \<and>
      DB s = fst (redeem_code_sync (clock (calls s ! w)) d code (caller (calls s ! w))) \<and>
      (\<forall>j<length (calls s). j \<noteq> w \<longrightarrow>
         outcome (phase (calls s ! j)) = None \<or>
         outcome (phase (calls s ! j)) = Some (Inr (False, Msg ''Code already used''))))"

definition callers_fit :: "db \<Rightarrow> code_row \<Rightarrow> loop \<Rightarrow> bool" where
  "callers_fit d r s =
     (\<forall>i<length (calls s). fits_int64 (get_credits_sync d (caller (calls s ! i)) + amount r))"

definition loop_inv :: "db \<Rightarrow> string \<Rightarrow> code_row \<Rightarrow> loop \<Rightarrow> bool" where
  "loop_inv d code r s =
     (lock_ok s \<and> callers_fit d r s \<and> (none_ran d s \<or> (\<exists>w. won d code r s w)))"

section \<open>Stores used as concrete inputs\<close>

definition db_alice :: db where
  "db_alice = \<lparr>users = [7 \<mapsto> \<lparr>credits = 3, last_topup_date = Some ''2024-05-01''\<rparr>],
               codes = Map.empty\<rparr>"

definition db_gift :: db where
  "db_gift = \<lparr>users = [7 \<mapsto> \<lparr>credits = 3, last_topup_date = Some ''2024-05-01''\<rparr>],
              codes = [''abc'' \<mapsto> \<lparr>amount = 100, created_by = 1,
                         created_at = ''2024-05-01T10:00:00'',
                         used_by = None, used_at = None\<rparr>]\<rparr>"

text \<open>
  A new user redeems a code of the largest amount the table can store, which the \<open>/code\<close>
  handler issues.
\<close>

definition db_max :: db where
  "db_max = run_ops [IssueCode ''max'' ''2024-05-01T10:00:00'' (2 ^ 63 - 1) 1,
                     RedeemCode ''2024-05-01T11:00:00'' ''max'' 7] init_db"

text \<open>Responses of the lookup API: no answer, one record, no record.\<close>

definition api_down :: "string \<Rightarrow> http" where
  "api_down num = Http_error"

definition api_one_record :: "string \<Rightarrow> http" where
  "api_one_record num =
     Http_response 200
       (Some (JDict [(''data'', JList [JDict [(''mobile'', JStr num),
                                              (''name'', JStr ''A B'')]])]))"

definition api_no_records :: "string \<Rightarrow> http" where
  "api_no_records num =
     Http_response 200 (Some (JDict [(''message'', JStr ''No records found'')]))"

text \<open>An account that has spent the grant of the day.\<close>

definition db_broke :: db where
  "db_broke = \<lparr>users = [7 \<mapsto> \<lparr>credits = 0, last_topup_date = Some ''2024-05-02''\<rparr>],
               codes = Map.empty\<rparr>"

text \<open>
  A user holds the 30 credits of a daily grant, and the \<open>/code\<close> handler has issued a
  code of the largest amount.
\<close>

definition db_granted_max :: db where
  "db_granted_max = run_ops [TopupIfNeeded ''2024-05-01'' 7,
                             IssueCode ''max'' ''2024-05-01T10:00:00'' (2 ^ 63 - 1) 1] init_db"

section \<open>The ledger\<close>

lemma db_max_eq:
  "db_max = \<lparr>users = [7 \<mapsto> \<lparr>credits = 2 ^ 63 - 1, last_topup_date = None\<rparr>],
             codes = [''max'' \<mapsto> \<lparr>amount = 2 ^ 63 - 1, created_by = 1,
                        created_at = ''2024-05-01T10:00:00'',
                        used_by = Some 7, used_at = Some ''2024-05-01T11:00:00''\<rparr>]\<rparr>"
  by (simp add: db_max_def run_ops_def code_cmd_issue_def generate_code_def
        generate_code_sync_def redeem_code_def redeem_code_sync_def init_db_def
        fits_int64_def Let_def)

text \<open>
  Claim C3, as stated: whenever the date of the last grant differs from today, the grant
  adds \<open>DAILY_FREE_CREDITS\<close> and returns the new balance. The account of \<open>db_max\<close> holds
  \<open>2 ^ 63 - 1\<close> credits and has no date of a last grant: the sum does not fit the column,
  the UPDATE raises \<open>OverflowError\<close>, and the balance and the date stay as they were.
\<close>

theorem topup_if_needed_sync_overflow:
  "last_topup db_max 7 \<noteq> Some ''2024-05-02'' \<and>
   topup_if_needed_sync ''2024-05-02'' db_max 7 = (db_max, Inl OverflowError) \<and>
   get_credits_sync db_max 7 = 2 ^ 63 - 1"
  by (simp add: db_max_eq topup_if_needed_sync_def last_topup_def get_credits_sync_def
        fits_int64_def DAILY_FREE_CREDITS_def Let_def)

text \<open>
  Claim C3, amended. When the date of the last grant of a user differs from today (the
  account may be absent, or its date null) and the balance plus \<open>DAILY_FREE_CREDITS\<close> is
  at most \<open>2 ^ 63 - 1\<close>, \<open>topup_if_needed_sync\<close> adds exactly \<open>DAILY_FREE_CREDITS\<close> to
  the balance, stores today as the date of the last grant and returns the new balance,
  touching no other row. When the sum is larger, it raises \<open>OverflowError\<close> and leaves
  the store as it was. When the date is today, it returns the balance and the store as
  they are. A second call on the same date changes nothing and gives what the first call
  gave.
\<close>

theorem topup_if_needed_sync_daily:
  "(last_topup d u \<noteq> Some today \<and>
    fits_int64 (get_credits_sync d u + DAILY_FREE_CREDITS) \<longrightarrow>
      snd (topup_if_needed_sync today d u) =
        Inr (get_credits_sync d u + DAILY_FREE_CREDITS) \<and>
      get_credits_sync (fst (topup_if_needed_sync today d u)) u =
        get_credits_sync d u + DAILY_FREE_CREDITS \<and>
      last_topup (fst (topup_if_needed_sync today d u)) u = Some today \<and>
      (\<forall>v. v \<noteq> u \<longrightarrow> users (fst (topup_if_needed_sync today d u)) v = users d v) \<and>
      codes (fst (topup_if_needed_sync today d u)) = codes d) \<and>
   (last_topup d u \<noteq> Some today \<and>
    \<not> fits_int64 (get_credits_sync d u + DAILY_FREE_CREDITS) \<longrightarrow>
      topup_if_needed_sync today d u = (d, Inl OverflowError)) \<and>
   (last_topup d u = Some today \<longrightarrow>
      topup_if_needed_sync today d u = (d, Inr (get_credits_sync d u))) \<and>
   topup_if_needed_sync today (fst (topup_if_needed_sync today d u)) u =
     topup_if_needed_sync today d u"
  by (cases "users d u")
     (simp_all add: topup_if_needed_sync_def last_topup_def get_credits_sync_def Let_def
        fits_int64_def DAILY_FREE_CREDITS_def)

theorem topup_if_needed_sync_daily_witness:
  "last_topup db_alice 7 \<noteq> Some ''2024-05-02'' \<and>
   fits_int64 (get_credits_sync db_alice 7 + DAILY_FREE_CREDITS) \<and>
   topup_if_needed_sync ''2024-05-02'' db_alice 7 =
     (db_alice\<lparr>users := [7 \<mapsto> \<lparr>credits = 33, last_topup_date = Some ''2024-05-02''\<rparr>]\<rparr>,
      Inr 33) \<and>
   last_topup db_alice 7 = Some ''2024-05-01'' \<and>
   topup_if_needed_sync ''2024-05-01'' db_alice 7 = (db_alice, Inr 3) \<and>
   last_topup db_alice 8 \<noteq> Some ''2024-05-02'' \<and>
   snd (topup_if_needed_sync ''2024-05-02'' db_alice 8) = Inr 30 \<and>
   \<not> fits_int64 (get_credits_sync db_max 7 + DAILY_FREE_CREDITS) \<and>
   snd (topup_if_needed_sync ''2024-05-03'' db_max 7) = Inl OverflowError"
  using topup_if_needed_sync_daily [of db_alice 7 "''2024-05-02''"]
        topup_if_needed_sync_daily [of db_alice 7 "''2024-05-01''"]
        topup_if_needed_sync_daily [of db_alice 8 "''2024-05-02''"]
        topup_if_needed_sync_daily [of db_max 7 "''2024-05-03''"]
  by (simp add: topup_if_needed_sync_def last_topup_def get_credits_sync_def db_alice_def
        db_max_eq fits_int64_def DAILY_FREE_CREDITS_def Let_def)

text \<open>
  Claim C4, as stated: for every signed \<open>delta\<close> the clamped sum is stored and returned,
  never an error. With a balance of 3 and \<open>delta = 2 ^ 63 - 1\<close> the clamped sum does not
  fit the column: the UPDATE raises \<open>OverflowError\<close> and the balance stays 3.
\<close>

theorem change_credits_sync_overflow:
  "change_credits_sync db_alice 7 (2 ^ 63 - 1) = (db_alice, Inl OverflowError) \<and>
   get_credits_sync db_alice 7 = 3"
  by (simp add: change_credits_sync_def get_credits_sync_def db_alice_def fits_int64_def
        Let_def)

text \<open>
  Claim C4, amended. For every user and every signed \<open>delta\<close> for which the old balance
  plus \<open>delta\<close>, clamped below at zero, is at most \<open>2 ^ 63 - 1\<close>, \<open>change_credits_sync\<close>
  stores and returns that clamped sum (an absent account counts as balance zero), and
  so does the coroutine \<open>change_credits\<close>. A returned balance is never negative. A
  negative \<open>delta\<close> that exceeds the balance gives zero, and no \<open>delta\<close> below or equal
  to zero raises on a balance that fits the column. When the clamped sum is larger than
  \<open>2 ^ 63 - 1\<close>, the call raises \<open>OverflowError\<close> and the balance stays as it was.
\<close>

theorem change_credits_sync_clamp:
  "(fits_int64 (max 0 (get_credits_sync d u + delta)) \<longrightarrow>
      snd (change_credits_sync d u delta) = Inr (max 0 (get_credits_sync d u + delta)) \<and>
      get_credits_sync (fst (change_credits_sync d u delta)) u =
        max 0 (get_credits_sync d u + delta) \<and>
      snd (change_credits d u delta) = Inr (max 0 (get_credits_sync d u + delta)) \<and>
      get_credits_sync (fst (change_credits d u delta)) u =
        max 0 (get_credits_sync d u + delta)) \<and>
   (\<not> fits_int64 (max 0 (get_credits_sync d u + delta)) \<longrightarrow>
      change_credits_sync d u delta = (d, Inl OverflowError) \<and>
      change_credits d u delta = (ensure_user_sync d u, Inl OverflowError) \<and>
      get_credits_sync (ensure_user_sync d u) u = get_credits_sync d u) \<and>
   (\<forall>n. snd (change_credits_sync d u delta) = Inr n \<longrightarrow> 0 \<le> n) \<and>
   (get_credits_sync d u + delta < 0 \<longrightarrow> snd (change_credits_sync d u delta) = Inr 0) \<and>
   (delta \<le> 0 \<and> fits_int64 (get_credits_sync d u) \<longrightarrow>
      snd (change_credits_sync d u delta) = Inr (max 0 (get_credits_sync d u + delta)))"
  by (cases "users d u")
     (auto simp add: change_credits_sync_def change_credits_def ensure_user_sync_def
        get_credits_sync_def Let_def fits_int64_def)

theorem change_credits_sync_clamp_witness:
  "get_credits_sync db_alice 7 + (- 5) < 0 \<and>
   fits_int64 (max 0 (get_credits_sync db_alice 7 + (- 5))) \<and>
   fits_int64 (get_credits_sync db_alice 7) \<and>
   change_credits_sync db_alice 7 (- 5) =
     (db_alice\<lparr>users := [7 \<mapsto> \<lparr>credits = 0, last_topup_date = Some ''2024-05-01''\<rparr>]\<rparr>,
      Inr 0) \<and>
   \<not> fits_int64 (max 0 (get_credits_sync db_alice 7 + 2 ^ 63)) \<and>
   snd (change_credits_sync db_alice 7 (2 ^ 63)) = Inl OverflowError"
  using change_credits_sync_clamp [of db_alice 7 "- 5"]
        change_credits_sync_clamp [of db_alice 7 "2 ^ 63"]
  by (simp add: change_credits_sync_def get_credits_sync_def db_alice_def fits_int64_def
        Let_def)

section \<open>The code registry\<close>

text \<open>
  Claim C9. Redeeming a code that is not in the table fails with the message
  \<open>Code not found\<close> and returns the store as it was: no balance and no code row
  changes.
\<close>

theorem redeem_code_sync_not_found:
  "codes d code = None \<Longrightarrow>
     redeem_code_sync now d code u = (d, Inr (False, Msg ''Code not found''))"
  by (simp add: redeem_code_sync_def)

theorem redeem_code_sync_not_found_witness:
  "codes db_gift ''xyz'' = None \<and>
   redeem_code_sync ''2024-05-02T08:00:00'' db_gift ''xyz'' 7 =
     (db_gift, Inr (False, Msg ''Code not found''))"
proof -
  have h: "codes db_gift ''xyz'' = None" by (simp add: db_gift_def)
  show ?thesis
    using h redeem_code_sync_not_found [OF h, of "''2024-05-02T08:00:00''" 7] by simp
qed

text \<open>
  Claim C10, as stated: after a redemption that created the account, a daily grant adds
  \<open>DAILY_FREE_CREDITS\<close> on top of the redeemed amount. The \<open>/code\<close> handler issues a
  code of \<open>2 ^ 63 - 1\<close> credits; a user without an account redeems it and the account is
  created with that balance and a null date; the daily grant that follows raises
  \<open>OverflowError\<close> and adds nothing.
\<close>

theorem redeem_then_topup_overflow:
  "users (run_ops [IssueCode ''max'' ''2024-05-01T10:00:00'' (2 ^ 63 - 1) 1] init_db) 7 = None \<and>
   snd (redeem_code_sync ''2024-05-01T11:00:00''
          (run_ops [IssueCode ''max'' ''2024-05-01T10:00:00'' (2 ^ 63 - 1) 1] init_db)
          ''max'' 7) = Inr (True, Amount (2 ^ 63 - 1)) \<and>
   users (fst (redeem_code_sync ''2024-05-01T11:00:00''
          (run_ops [IssueCode ''max'' ''2024-05-01T10:00:00'' (2 ^ 63 - 1) 1] init_db)
          ''max'' 7)) 7 = Some \<lparr>credits = 2 ^ 63 - 1, last_topup_date = None\<rparr> \<and>
   snd (topup_if_needed_sync ''2024-05-01''
          (fst (redeem_code_sync ''2024-05-01T11:00:00''
             (run_ops [IssueCode ''max'' ''2024-05-01T10:00:00'' (2 ^ 63 - 1) 1] init_db)
             ''max'' 7)) 7) = Inl OverflowError \<and>
   get_credits_sync (fst (topup_if_needed_sync ''2024-05-01''
          (fst (redeem_code_sync ''2024-05-01T11:00:00''
             (run_ops [IssueCode ''max'' ''2024-05-01T10:00:00'' (2 ^ 63 - 1) 1] init_db)
             ''max'' 7)) 7)) 7 = 2 ^ 63 - 1"
  by (simp add: run_ops_def code_cmd_issue_def generate_code_def generate_code_sync_def
        redeem_code_sync_def topup_if_needed_sync_def get_credits_sync_def init_db_def
        fits_int64_def DAILY_FREE_CREDITS_def Let_def)

text \<open>
  Claim C10, amended. When an unused code, whose amount is a value of the column, is
  redeemed by a user who has no account, the account is created with the amount of the
  code as its credits and a null date of the last grant. A daily grant later that day (on
  any date) adds \<open>DAILY_FREE_CREDITS\<close> on top of the redeemed amount when the sum is at
  most \<open>2 ^ 63 - 1\<close>; when it is larger, the grant raises \<open>OverflowError\<close> and changes
  nothing.
\<close>

theorem redeem_creates_account_then_topup:
  assumes "codes d code = Some r" and "used_by r = None" and "users d u = None"
    and "fits_int64 (amount r)"
  shows "users (fst (redeem_code_sync now d code u)) u =
           Some \<lparr>credits = amount r, last_topup_date = None\<rparr> \<and>
         snd (redeem_code_sync now d code u) = Inr (True, Amount (amount r)) \<and>
         (fits_int64 (amount r + DAILY_FREE_CREDITS) \<longrightarrow>
            snd (topup_if_needed_sync today (fst (redeem_code_sync now d code u)) u) =
              Inr (amount r + DAILY_FREE_CREDITS) \<and>
            get_credits_sync
              (fst (topup_if_needed_sync today (fst (redeem_code_sync now d code u)) u)) u =
              amount r + DAILY_FREE_CREDITS) \<and>
         (\<not> fits_int64 (amount r + DAILY_FREE_CREDITS) \<longrightarrow>
            topup_if_needed_sync today (fst (redeem_code_sync now d code u)) u =
              (fst (redeem_code_sync now d code u), Inl OverflowError))"
  using assms
  by (simp add: redeem_code_sync_def topup_if_needed_sync_def get_credits_sync_def Let_def)

theorem redeem_creates_account_then_topup_witness:
  "codes db_gift ''abc'' = Some \<lparr>amount = 100, created_by = 1,
       created_at = ''2024-05-01T10:00:00'', used_by = None, used_at = None\<rparr> \<and>
   users db_gift 8 = None \<and>
   fits_int64 100 \<and> fits_int64 (100 + DAILY_FREE_CREDITS) \<and>
   users (fst (redeem_code_sync ''2024-05-02T08:00:00'' db_gift ''abc'' 8)) 8 =
     Some \<lparr>credits = 100, last_topup_date = None\<rparr> \<and>
   snd (topup_if_needed_sync ''2024-05-02''
          (fst (redeem_code_sync ''2024-05-02T08:00:00'' db_gift ''abc'' 8)) 8) = Inr 130"
proof -
  have c: "codes db_gift ''abc'' = Some \<lparr>amount = 100, created_by = 1,
       created_at = ''2024-05-01T10:00:00'', used_by = None, used_at = None\<rparr>"
    by (simp add: db_gift_def)
  have u: "users db_gift 8 = None" by (simp add: db_gift_def)
  have f: "fits_int64 100 \<and> fits_int64 (100 + DAILY_FREE_CREDITS)"
    by (simp add: fits_int64_def DAILY_FREE_CREDITS_def)
  show ?thesis
    using c u f
      redeem_creates_account_then_topup [OF c _ u, of "''2024-05-02T08:00:00''" "''2024-05-02''"]
    by (simp add: DAILY_FREE_CREDITS_def)
qed

subsection \<open>A code row under later operations\<close>

lemma codes_ensure_user_sync: "codes (ensure_user_sync d u) = codes d"
  by (simp add: ensure_user_sync_def split: option.splits)

lemma codes_topup_if_needed_sync: "codes (fst (topup_if_needed_sync today d u)) = codes d"
  by (simp add: topup_if_needed_sync_def Let_def split: option.splits)

lemma codes_change_credits_sync: "codes (fst (change_credits_sync d u delta)) = codes d"
  by (simp add: change_credits_sync_def Let_def split: option.splits)

lemma codes_generate_code_sync:
  "generate_code_sync token now d amt creator = (d', Inr t) \<Longrightarrow>
     t = token \<and> codes d token = None \<and> fits_int64 amt \<and>
     codes d' = (codes d)(token \<mapsto> \<lparr>amount = amt, created_by = creator, created_at = now,
                                   used_by = None, used_at = None\<rparr>) \<and>
     users d' = users d"
  by (auto simp: generate_code_sync_def split: option.splits if_splits)

lemma generate_code_sync_error:
  "generate_code_sync token now d amt creator = (d', Inl e) \<Longrightarrow> d' = d"
  by (auto simp: generate_code_sync_def split: option.splits if_splits)

lemma codes_redeem_code_sync_other:
  "code \<noteq> c \<Longrightarrow> codes (fst (redeem_code_sync now d code u)) c = codes d c"
  by (simp add: redeem_code_sync_def Let_def split: option.splits)

lemma redeem_code_sync_used:
  "codes d c = Some r \<Longrightarrow> used_by r \<noteq> None \<Longrightarrow>
     redeem_code_sync now d c u = (d, Inr (False, Msg ''Code already used''))"
  by (simp add: redeem_code_sync_def)

lemma redeem_code_sync_unused:
  "codes d c = Some r \<Longrightarrow> used_by r = None \<Longrightarrow>
   fits_int64 (get_credits_sync d u + amount r) \<Longrightarrow>
     snd (redeem_code_sync now d c u) = Inr (True, Amount (amount r)) \<and>
     codes (fst (redeem_code_sync now d c u)) =
       (codes d)(c \<mapsto> r\<lparr>used_by := Some u, used_at := Some now\<rparr>) \<and>
     get_credits_sync (fst (redeem_code_sync now d c u)) u = get_credits_sync d u + amount r \<and>
     (\<forall>v. v \<noteq> u \<longrightarrow> users (fst (redeem_code_sync now d c u)) v = users d v)"
  by (cases "users d u") (simp_all add: redeem_code_sync_def get_credits_sync_def Let_def)

lemma apply_op_keeps_row:
  assumes "codes d c = Some r" and "used_by r \<noteq> None \<or> \<not> redeems c x"
  shows "codes (apply_op x d) c = Some r"
proof (cases x)
  case (EnsureUser u)
  then show ?thesis using assms by (simp add: ensure_user_def codes_ensure_user_sync)
next
  case (TopupIfNeeded today u)
  then show ?thesis using assms by (simp add: topup_if_needed_def codes_topup_if_needed_sync)
next
  case (GetCredits u)
  then show ?thesis using assms by (simp add: get_credits_def Let_def codes_ensure_user_sync)
next
  case (ChangeCredits u delta)
  then show ?thesis using assms
    by (simp add: change_credits_def codes_change_credits_sync codes_ensure_user_sync)
next
  case (IssueCode token now amt creator)
  obtain d' res where g: "generate_code_sync token now d amt creator = (d', res)"
    by (cases "generate_code_sync token now d amt creator")
  have "codes d' c = Some r"
  proof (cases res)
    case (Inl e)
    from generate_code_sync_error [OF g [unfolded Inl]] assms(1) show ?thesis by simp
  next
    case (Inr t)
    from codes_generate_code_sync [OF g [unfolded Inr]] assms(1) show ?thesis by auto
  qed
  then show ?thesis using IssueCode g assms(1)
    by (simp add: code_cmd_issue_def generate_code_def)
next
  case (RedeemCode now code u)
  show ?thesis
  proof (cases "code = c")
    case True
    with RedeemCode assms have "used_by r \<noteq> None" by simp
    from redeem_code_sync_used [OF assms(1) this]
    show ?thesis using RedeemCode True assms(1) by (simp add: redeem_code_def)
  next
    case False
    then show ?thesis using RedeemCode assms(1)
      by (simp add: redeem_code_def codes_redeem_code_sync_other)
  qed
qed

lemma run_ops_keeps_row:
  "codes d c = Some r \<Longrightarrow> used_by r \<noteq> None \<or> (\<forall>x\<in>set ops. \<not> redeems c x) \<Longrightarrow>
     codes (run_ops ops d) c = Some r"
proof (induction ops arbitrary: d)
  case Nil
  then show ?case by (simp add: run_ops_def)
next
  case (Cons x ops)
  from Cons.prems have "codes (apply_op x d) c = Some r"
    by (intro apply_op_keeps_row) auto
  moreover from Cons.prems(2) have "used_by r \<noteq> None \<or> (\<forall>y\<in>set ops. \<not> redeems c y)"
    by auto
  ultimately have "codes (run_ops ops (apply_op x d)) c = Some r"
    by (rule Cons.IH)
  then show ?case by (simp add: run_ops_def)
qed

text \<open>
  Claim C1, as stated: the first redemption of an issued code succeeds and credits its
  amount. A user with the 30 credits of a daily grant redeems a code of \<open>2 ^ 63 - 1\<close>
  credits, which the \<open>/code\<close> handler issues: the code is marked used, then the write of
  the balance raises \<open>OverflowError\<close>. The first redemption does not succeed, the balance
  stays 30, and the next redemption finds the code used.
\<close>

theorem redeem_first_overflow:
  "get_credits_sync
     (run_ops [TopupIfNeeded ''2024-05-01'' 7,
               IssueCode ''max'' ''2024-05-01T10:00:00'' (2 ^ 63 - 1) 1] init_db) 7 = 30 \<and>
   snd (redeem_code_sync ''2024-05-01T11:00:00''
     (run_ops [TopupIfNeeded ''2024-05-01'' 7,
               IssueCode ''max'' ''2024-05-01T10:00:00'' (2 ^ 63 - 1) 1] init_db)
     ''max'' 7) = Inl OverflowError \<and>
   get_credits_sync (fst (redeem_code_sync ''2024-05-01T11:00:00''
     (run_ops [TopupIfNeeded ''2024-05-01'' 7,
               IssueCode ''max'' ''2024-05-01T10:00:00'' (2 ^ 63 - 1) 1] init_db)
     ''max'' 7)) 7 = 30 \<and>
   snd (redeem_code_sync ''2024-05-01T12:00:00''
     (fst (redeem_code_sync ''2024-05-01T11:00:00''
       (run_ops [TopupIfNeeded ''2024-05-01'' 7,
                 IssueCode ''max'' ''2024-05-01T10:00:00'' (2 ^ 63 - 1) 1] init_db)
       ''max'' 7)) ''max'' 7) = Inr (False, Msg ''Code already used'')"
  by (simp add: run_ops_def topup_if_needed_def topup_if_needed_sync_def code_cmd_issue_def
        generate_code_def generate_code_sync_def redeem_code_sync_def get_credits_sync_def
        init_db_def fits_int64_def DAILY_FREE_CREDITS_def Let_def)

text \<open>
  Claim C1, amended. Take a code issued by \<open>generate_code_sync\<close> with amount \<open>A\<close>, and
  let any operations follow that do not redeem it. The first redemption, by a user whose
  balance plus \<open>A\<close> is a value of the column (at most \<open>2 ^ 63 - 1\<close>), returns \<open>True\<close>
  with \<open>A\<close> and raises the balance of that user by exactly \<open>A\<close>. After it, and after
  any further operations, every redemption of the same code by any caller returns
  \<open>False\<close> with \<open>Code already used\<close> and leaves the whole store, hence every balance, as
  it was.
\<close>

theorem redeem_exactly_once:
  assumes "generate_code_sync token t0 d0 A issuer = (d1, Inr c)"
    and "\<forall>x\<in>set ops1. \<not> redeems c x"
    and "fits_int64 (get_credits_sync (run_ops ops1 d1) u + A)"
  shows "snd (redeem_code_sync t1 (run_ops ops1 d1) c u) = Inr (True, Amount A) \<and>
         get_credits_sync (fst (redeem_code_sync t1 (run_ops ops1 d1) c u)) u =
           get_credits_sync (run_ops ops1 d1) u + A \<and>
         redeem_code_sync t2
             (run_ops ops2 (fst (redeem_code_sync t1 (run_ops ops1 d1) c u))) c u' =
           (run_ops ops2 (fst (redeem_code_sync t1 (run_ops ops1 d1) c u)),
            Inr (False, Msg ''Code already used''))"
proof -
  let ?r = "\<lparr>amount = A, created_by = issuer, created_at = t0,
             used_by = None, used_at = None\<rparr>"
  let ?d = "run_ops ops1 d1"
  let ?d2 = "fst (redeem_code_sync t1 ?d c u)"
  from codes_generate_code_sync [OF assms(1)] have "codes d1 c = Some ?r" by simp
  then have row: "codes ?d c = Some ?r"
    using assms(2) by (intro run_ops_keeps_row) auto
  have un: "used_by ?r = None" by simp
  have ft: "fits_int64 (get_credits_sync ?d u + amount ?r)" using assms(3) by simp
  from redeem_code_sync_unused [OF row un ft, of t1]
  have first: "snd (redeem_code_sync t1 ?d c u) = Inr (True, Amount A)"
    and bal: "get_credits_sync ?d2 u = get_credits_sync ?d u + A"
    and row2: "codes ?d2 c = Some (?r\<lparr>used_by := Some u, used_at := Some t1\<rparr>)"
    by simp_all
  have "codes (run_ops ops2 ?d2) c = Some (?r\<lparr>used_by := Some u, used_at := Some t1\<rparr>)"
    using row2 by (intro run_ops_keeps_row) auto
  then have "redeem_code_sync t2 (run_ops ops2 ?d2) c u' =
      (run_ops ops2 ?d2, Inr (False, Msg ''Code already used''))"
    by (intro redeem_code_sync_used) auto
  with first bal show ?thesis by simp
qed

theorem redeem_exactly_once_witness:
  "generate_code_sync ''tok'' ''2024-05-01T10:00:00'' db_alice 100 1 =
     (db_alice\<lparr>codes := [''tok'' \<mapsto> \<lparr>amount = 100, created_by = 1,
            created_at = ''2024-05-01T10:00:00'', used_by = None, used_at = None\<rparr>]\<rparr>,
      Inr ''tok'') \<and>
   \<not> redeems ''tok'' (TopupIfNeeded ''2024-05-02'' 7) \<and>
   fits_int64 (get_credits_sync
     (run_ops [TopupIfNeeded ''2024-05-02'' 7]
       (db_alice\<lparr>codes := [''tok'' \<mapsto> \<lparr>amount = 100, created_by = 1,
            created_at = ''2024-05-01T10:00:00'', used_by = None, used_at = None\<rparr>]\<rparr>)) 7
     + 100) \<and>
   snd (redeem_code_sync ''t1''
     (run_ops [TopupIfNeeded ''2024-05-02'' 7]
       (db_alice\<lparr>codes := [''tok'' \<mapsto> \<lparr>amount = 100, created_by = 1,
            created_at = ''2024-05-01T10:00:00'', used_by = None, used_at = None\<rparr>]\<rparr>))
     ''tok'' 7) = Inr (True, Amount 100) \<and>
   get_credits_sync (fst (redeem_code_sync ''t1''
     (run_ops [TopupIfNeeded ''2024-05-02'' 7]
       (db_alice\<lparr>codes := [''tok'' \<mapsto> \<lparr>amount = 100, created_by = 1,
            created_at = ''2024-05-01T10:00:00'', used_by = None, used_at = None\<rparr>]\<rparr>))
     ''tok'' 7)) 7 = 133 \<and>
   snd (redeem_code_sync ''t2'' (run_ops [ChangeCredits 7 (- 1)]
     (fst (redeem_code_sync ''t1''
       (run_ops [TopupIfNeeded ''2024-05-02'' 7]
         (db_alice\<lparr>codes := [''tok'' \<mapsto> \<lparr>amount = 100, created_by = 1,
            created_at = ''2024-05-01T10:00:00'', used_by = None, used_at = None\<rparr>]\<rparr>))
       ''tok'' 7))) ''tok'' 9) = Inr (False, Msg ''Code already used'')"
proof -
  let ?d1 = "db_alice\<lparr>codes := [''tok'' \<mapsto> \<lparr>amount = 100, created_by = 1,
            created_at = ''2024-05-01T10:00:00'', used_by = None, used_at = None\<rparr>]\<rparr>"
  have g: "generate_code_sync ''tok'' ''2024-05-01T10:00:00'' db_alice 100 1 =
      (?d1, Inr ''tok'')"
    by (simp add: generate_code_sync_def db_alice_def fits_int64_def)
  have q: "\<forall>x\<in>set [TopupIfNeeded ''2024-05-02'' 7]. \<not> redeems ''tok'' x" by simp
  have b: "get_credits_sync (run_ops [TopupIfNeeded ''2024-05-02'' 7] ?d1) 7 = 33"
    by (simp add: run_ops_def topup_if_needed_def topup_if_needed_sync_def
          get_credits_sync_def db_alice_def fits_int64_def DAILY_FREE_CREDITS_def Let_def)
  have f: "fits_int64
      (get_credits_sync (run_ops [TopupIfNeeded ''2024-05-02'' 7] ?d1) 7 + 100)"
    by (simp add: b fits_int64_def)
  show ?thesis
    using g q b f
      redeem_exactly_once [OF g q f, of "''t1''" "''t2''" "[ChangeCredits 7 (- 1)]" 9]
    by simp
qed

section \<open>Non-negative balances\<close>

lemma credits_ok_ensure_user_sync: "credits_ok d \<Longrightarrow> credits_ok (ensure_user_sync d u)"
  by (auto simp: ensure_user_sync_def credits_ok_def split: option.splits)

lemma credits_ok_topup_if_needed_sync:
  "credits_ok d \<Longrightarrow> credits_ok (fst (topup_if_needed_sync today d u))"
  by (auto simp: topup_if_needed_sync_def credits_ok_def DAILY_FREE_CREDITS_def Let_def
           split: option.splits)

lemma credits_ok_change_credits_sync:
  "credits_ok d \<Longrightarrow> credits_ok (fst (change_credits_sync d u delta))"
  by (auto simp: change_credits_sync_def credits_ok_def Let_def split: option.splits)

lemma credits_ok_redeem_code_sync:
  "credits_ok d \<Longrightarrow> amounts_ok d \<Longrightarrow> credits_ok (fst (redeem_code_sync now d code u))"
  by (auto simp: redeem_code_sync_def credits_ok_def amounts_ok_def Let_def
           split: option.splits)

lemma amounts_ok_redeem_code_sync:
  "amounts_ok d \<Longrightarrow> amounts_ok (fst (redeem_code_sync now d code u))"
  by (auto simp: redeem_code_sync_def amounts_ok_def Let_def split: option.splits)

lemma amounts_ok_codes: "codes d' = codes d \<Longrightarrow> amounts_ok d \<Longrightarrow> amounts_ok d'"
  by (simp add: amounts_ok_def)

lemma ok_code_cmd_issue:
  assumes "credits_ok d" and "amounts_ok d"
  shows "credits_ok (fst (code_cmd_issue token now d amt creator)) \<and>
         amounts_ok (fst (code_cmd_issue token now d amt creator))"
proof (cases "amt \<le> 0")
  case True
  then show ?thesis using assms by (simp add: code_cmd_issue_def)
next
  case False
  obtain d' res where g: "generate_code_sync token now d amt creator = (d', res)"
    by (cases "generate_code_sync token now d amt creator")
  have "credits_ok d' \<and> amounts_ok d'"
  proof (cases res)
    case (Inl e)
    from generate_code_sync_error [OF g [unfolded Inl]] assms show ?thesis by simp
  next
    case (Inr t)
    from codes_generate_code_sync [OF g [unfolded Inr]] assms False show ?thesis
      by (auto simp: credits_ok_def amounts_ok_def)
  qed
  then show ?thesis using False g by (simp add: code_cmd_issue_def generate_code_def)
qed

lemma apply_op_ok:
  assumes "credits_ok d" and "amounts_ok d"
  shows "credits_ok (apply_op x d) \<and> amounts_ok (apply_op x d)"
proof (cases x)
  case (EnsureUser u)
  then show ?thesis using assms
    by (simp add: ensure_user_def credits_ok_ensure_user_sync
          amounts_ok_codes [OF codes_ensure_user_sync])
next
  case (TopupIfNeeded today u)
  then show ?thesis using assms
    by (simp add: topup_if_needed_def credits_ok_topup_if_needed_sync
          amounts_ok_codes [OF codes_topup_if_needed_sync])
next
  case (GetCredits u)
  then show ?thesis using assms
    by (simp add: get_credits_def Let_def credits_ok_ensure_user_sync
          amounts_ok_codes [OF codes_ensure_user_sync])
next
  case (ChangeCredits u delta)
  have "codes (fst (change_credits_sync (ensure_user_sync d u) u delta)) = codes d"
    by (simp add: codes_change_credits_sync codes_ensure_user_sync)
  from amounts_ok_codes [OF this assms(2)]
  have "amounts_ok (fst (change_credits_sync (ensure_user_sync d u) u delta))" .
  then show ?thesis using ChangeCredits assms(1)
    by (simp add: change_credits_def credits_ok_change_credits_sync credits_ok_ensure_user_sync)
next
  case (IssueCode token now amt creator)
  then show ?thesis using ok_code_cmd_issue [OF assms] by simp
next
  case (RedeemCode now code u)
  then show ?thesis using assms
    by (simp add: redeem_code_def credits_ok_redeem_code_sync amounts_ok_redeem_code_sync)
qed

lemma run_ops_ok:
  "credits_ok d \<Longrightarrow> amounts_ok d \<Longrightarrow>
     credits_ok (run_ops ops d) \<and> amounts_ok (run_ops ops d)"
proof (induction ops arbitrary: d)
  case Nil
  then show ?case by (simp add: run_ops_def)
next
  case (Cons x ops)
  from Cons.prems have "credits_ok (apply_op x d) \<and> amounts_ok (apply_op x d)"
    by (simp add: apply_op_ok)
  then have "credits_ok (run_ops ops (apply_op x d)) \<and> amounts_ok (run_ops ops (apply_op x d))"
    using Cons.IH by blast
  then show ?case by (simp add: run_ops_def)
qed

lemma get_credits_sync_nonneg: "credits_ok d \<Longrightarrow> 0 \<le> get_credits_sync d v"
  by (cases "users d v") (simp_all add: get_credits_sync_def credits_ok_def)

text \<open>
  Claim C5. After every sequence of core operations on the store of \<open>init_db\<close>, whether
  the operations return or raise, the credits of every account are at least zero, and
  so is the balance that \<open>get_credits_sync\<close> reads for any user. The same holds from
  every store in which the credits and the amounts of the codes are at least zero.
\<close>

theorem credits_nonneg_invariant:
  "(\<forall>u r. users (run_ops ops init_db) u = Some r \<longrightarrow> 0 \<le> credits r) \<and>
   0 \<le> get_credits_sync (run_ops ops init_db) v \<and>
   (credits_ok d \<and> amounts_ok d \<longrightarrow>
      (\<forall>u r. users (run_ops ops d) u = Some r \<longrightarrow> 0 \<le> credits r) \<and>
      0 \<le> get_credits_sync (run_ops ops d) v)"
proof -
  have a: "credits_ok init_db" by (simp add: credits_ok_def init_db_def)
  have b: "amounts_ok init_db" by (simp add: amounts_ok_def init_db_def)
  from run_ops_ok [OF a b] have ok: "credits_ok (run_ops ops init_db)" by simp
  have gen: "credits_ok (run_ops ops d)" if "credits_ok d" and "amounts_ok d"
    using run_ops_ok [OF that] by simp
  show ?thesis
    using ok gen get_credits_sync_nonneg [of "run_ops ops init_db" v]
      get_credits_sync_nonneg [of "run_ops ops d" v]
    by (simp add: credits_ok_def)
qed

theorem credits_nonneg_invariant_witness:
  "users (run_ops [IssueCode ''neg'' ''2024-05-01T09:00:00'' (- 5) 1,
               RedeemCode ''2024-05-01T09:30:00'' ''neg'' 7,
               IssueCode ''tok'' ''2024-05-01T10:00:00'' 5 1,
               RedeemCode ''2024-05-01T11:00:00'' ''tok'' 7,
               ChangeCredits 7 (- 9)] init_db) 7 =
     Some \<lparr>credits = 0, last_topup_date = None\<rparr> \<and>
   0 \<le> credits \<lparr>credits = 0, last_topup_date = None\<rparr> \<and>
   credits_ok db_alice \<and> amounts_ok db_alice \<and>
   get_credits_sync (run_ops [ChangeCredits 7 (- 9)] db_alice) 7 = 0"
proof -
  have e: "users (run_ops [IssueCode ''neg'' ''2024-05-01T09:00:00'' (- 5) 1,
               RedeemCode ''2024-05-01T09:30:00'' ''neg'' 7,
               IssueCode ''tok'' ''2024-05-01T10:00:00'' 5 1,
               RedeemCode ''2024-05-01T11:00:00'' ''tok'' 7,
               ChangeCredits 7 (- 9)] init_db) 7 =
     Some \<lparr>credits = 0, last_topup_date = None\<rparr>"
    by (simp add: run_ops_def code_cmd_issue_def generate_code_def generate_code_sync_def
        redeem_code_def redeem_code_sync_def change_credits_def change_credits_sync_def
        ensure_user_sync_def init_db_def fits_int64_def Let_def)
  have a: "credits_ok db_alice" by (simp add: credits_ok_def db_alice_def)
  have b: "amounts_ok db_alice" by (simp add: amounts_ok_def db_alice_def)
  have c: "get_credits_sync (run_ops [ChangeCredits 7 (- 9)] db_alice) 7 = 0"
    by (simp add: run_ops_def change_credits_def change_credits_sync_def
        ensure_user_sync_def get_credits_sync_def db_alice_def fits_int64_def Let_def)
  show ?thesis
    using e a b c
      credits_nonneg_invariant [of "[IssueCode ''neg'' ''2024-05-01T09:00:00'' (- 5) 1,
               RedeemCode ''2024-05-01T09:30:00'' ''neg'' 7,
               IssueCode ''tok'' ''2024-05-01T10:00:00'' 5 1,
               RedeemCode ''2024-05-01T11:00:00'' ''tok'' 7,
               ChangeCredits 7 (- 9)]" 7 db_alice]
    by simp
qed

section \<open>Issuing a code\<close>

lemma py_int_examples:
  "py_int ''0'' = Some 0" "py_int ''-5'' = Some (- 5)" "py_int ''abc'' = None"
  by (simp_all add: py_int_def strip_def isspace_def unsigned_value_def digit_of_def)

text \<open>
  Claim C6. The program issues a code through the \<open>/code\<close> handler, the only caller of
  \<open>generate_code\<close>, which itself does not look at the amount. For every amount that is
  not positive and every issuer, the issue raises \<open>ValueError\<close> before \<open>generate_code\<close>
  is called and leaves the store as it was. For every argument of the command that is
  not the text of a positive integer (the text of zero or of a negative integer, or no
  integer at all), the handler leaves the store as it was, so no row is created, and
  answers an admin with the request for a positive integer amount. A positive amount
  that fits the column, with a fresh token, does create the row.
\<close>

theorem code_cmd_rejects_nonpositive:
  "(amt \<le> 0 \<longrightarrow> code_cmd_issue token now d amt issuer = (d, Inl ValueError)) \<and>
   ((\<forall>a. py_int arg = Some a \<longrightarrow> a \<le> 0) \<longrightarrow>
      fst (code_cmd ADMIN_IDS token now d issuer (arg # rest)) = d \<and>
      (issuer \<in> set ADMIN_IDS \<longrightarrow>
         snd (code_cmd ADMIN_IDS token now d issuer (arg # rest)) =
           [Reply Provide_positive])) \<and>
   (0 < amt \<and> fits_int64 amt \<and> codes d token = None \<longrightarrow>
      snd (code_cmd_issue token now d amt issuer) = Inr token \<and>
      codes (fst (code_cmd_issue token now d amt issuer)) token =
        Some \<lparr>amount = amt, created_by = issuer, created_at = now,
              used_by = None, used_at = None\<rparr>)"
  by (cases "py_int arg")
     (simp_all add: code_cmd_issue_def code_cmd_def generate_code_def generate_code_sync_def)

theorem code_cmd_rejects_nonpositive_witness:
  "(- 5 :: int) \<le> 0 \<and>
   code_cmd_issue ''tok'' ''2024-05-01T10:00:00'' db_alice (- 5) 1 = (db_alice, Inl ValueError) \<and>
   py_int ''-5'' = Some (- 5) \<and>
   code_cmd [1] ''tok'' ''2024-05-01T10:00:00'' db_alice 1 [''-5''] =
     (db_alice, [Reply Provide_positive]) \<and>
   py_int ''0'' = Some 0 \<and>
   code_cmd [1] ''tok'' ''2024-05-01T10:00:00'' db_alice 1 [''0''] =
     (db_alice, [Reply Provide_positive]) \<and>
   py_int ''abc'' = None \<and>
   code_cmd [1] ''tok'' ''2024-05-01T10:00:00'' db_alice 1 [''abc''] =
     (db_alice, [Reply Provide_positive]) \<and>
   (0 :: int) < 5 \<and> fits_int64 5 \<and> codes db_alice ''tok'' = None \<and>
   snd (code_cmd_issue ''tok'' ''2024-05-01T10:00:00'' db_alice 5 1) = Inr ''tok''"
  using code_cmd_rejects_nonpositive [of "- 5" "''tok''" "''2024-05-01T10:00:00''" db_alice 1
          "''-5''" "[1]" "[]"]
        code_cmd_rejects_nonpositive [of "- 5" "''tok''" "''2024-05-01T10:00:00''" db_alice 1
          "''0''" "[1]" "[]"]
        code_cmd_rejects_nonpositive [of 5 "''tok''" "''2024-05-01T10:00:00''" db_alice 1
          "''abc''" "[1]" "[]"]
  by (simp add: py_int_examples prod_eq_iff fits_int64_def db_alice_def)

section \<open>The metered lookup\<close>

subsection \<open>A caller who is an admin\<close>

lemma users_ensure_user_sync:
  "users (ensure_user_sync d u) u \<noteq> None \<and>
   (\<forall>v. v \<noteq> u \<longrightarrow> users (ensure_user_sync d u) v = users d v)"
  by (cases "users d u") (simp_all add: ensure_user_sync_def)







subsection \<open>A caller who is not an admin\<close>

lemma get_credits_present:
  "users d u = Some r \<Longrightarrow> get_credits d u = (d, credits r)"
  by (simp add: get_credits_def ensure_user_sync_def get_credits_sync_def)

lemma send_all_standard:
  "users d u = Some r \<Longrightarrow> fst (send_all False fl d u) = d"
  by (simp add: send_all_def get_credits_present split: prod.splits)

lemma deduct_and_send_standard:
  assumes "users d u = Some r" and "CREDIT_COST_PER_LOOKUP \<le> credits r"
    and "fits_int64 (credits r)"
  shows "fst (deduct_and_send False fl d u) =
           d\<lparr>users := (users d)(u \<mapsto> r\<lparr>credits := credits r - CREDIT_COST_PER_LOOKUP\<rparr>)\<rparr>"
proof -
  let ?d' = "d\<lparr>users := (users d)(u \<mapsto> r\<lparr>credits := credits r - CREDIT_COST_PER_LOOKUP\<rparr>)\<rparr>"
  have f: "fits_int64 (max 0 (credits r + - CREDIT_COST_PER_LOOKUP))"
    using assms(2,3) by (simp add: fits_int64_def CREDIT_COST_PER_LOOKUP_def)
  have m: "max 0 (credits r + - CREDIT_COST_PER_LOOKUP) = credits r - CREDIT_COST_PER_LOOKUP"
    using assms(2) by (simp add: CREDIT_COST_PER_LOOKUP_def)
  have c: "change_credits d u (- CREDIT_COST_PER_LOOKUP) =
      (?d', Inr (credits r - CREDIT_COST_PER_LOOKUP))"
    using assms(1) f m
    by (simp add: change_credits_def ensure_user_sync_def change_credits_sync_def Let_def)
  have "users ?d' u = Some (r\<lparr>credits := credits r - CREDIT_COST_PER_LOOKUP\<rparr>)" by simp
  from send_all_standard [OF this] have "fst (send_all False fl ?d' u) = ?d'" .
  with c show ?thesis by (simp add: deduct_and_send_def)
qed

lemma parse_response_Inr:
  "parse_response resp = Inr fl \<Longrightarrow> fl \<noteq> [] \<and> list_all usable fl"
  by (auto simp: parse_response_def Let_def list_all_iff
           split: http.splits if_splits option.splits sum.splits)


lemma topup_if_needed_sync_result:
  assumes "users d u \<noteq> None" and "topup_if_needed_sync today d u = (d2, Inr n)"
  shows "\<exists>r. users d2 u = Some r \<and> credits r = n \<and>
             (fits_int64 (get_credits_sync d u) \<longrightarrow> fits_int64 n)"
  using assms
  by (auto simp: topup_if_needed_sync_def get_credits_sync_def Let_def
           split: option.splits if_splits)

lemma topup_if_needed_sync_error:
  "topup_if_needed_sync today d u = (d2, Inl e) \<Longrightarrow> d2 = d"
  by (auto simp: topup_if_needed_sync_def Let_def split: option.splits if_splits)

lemma get_credits_sync_ensure_user_sync:
  "get_credits_sync (ensure_user_sync d u) u = get_credits_sync d u"
  by (cases "users d u") (simp_all add: ensure_user_sync_def get_credits_sync_def)

lemma lookup_standard:
  assumes "users d u = Some r" and "CREDIT_COST_PER_LOOKUP \<le> credits r"
    and "fits_int64 (credits r)"
  shows "(\<forall>m. parse_response (session_get num) = Inl m \<longrightarrow>
            lookup False session_get num d u =
              (d, [Reply (Looking_up num), HttpGet num, Reply m])) \<and>
         (\<forall>fl. parse_response (session_get num) = Inr fl \<longrightarrow>
            fst (lookup False session_get num d u) =
              d\<lparr>users := (users d)(u \<mapsto> r\<lparr>credits := credits r - CREDIT_COST_PER_LOOKUP\<rparr>)\<rparr>)"
proof (intro conjI allI impI)
  fix m assume "parse_response (session_get num) = Inl m"
  then show "lookup False session_get num d u =
      (d, [Reply (Looking_up num), HttpGet num, Reply m])"
    by (simp add: lookup_def)
next
  fix fl assume p: "parse_response (session_get num) = Inr fl"
  obtain d' es where s: "deduct_and_send False fl d u = (d', es)"
    by (cases "deduct_and_send False fl d u")
  with deduct_and_send_standard [OF assms, of fl]
  have "d' = d\<lparr>users := (users d)(u \<mapsto> r\<lparr>credits := credits r - CREDIT_COST_PER_LOOKUP\<rparr>)\<rparr>"
    by simp
  with p s show "fst (lookup False session_get num d u) =
      d\<lparr>users := (users d)(u \<mapsto> r\<lparr>credits := credits r - CREDIT_COST_PER_LOOKUP\<rparr>)\<rparr>"
    by (simp add: lookup_def)
qed

lemma num_cmd_standard:
  assumes "user_id \<notin> set ADMIN_IDS"
    and "length (filter isdigit (strip arg)) = 10 \<or> length (filter isdigit (strip arg)) = 12"
  shows "num_cmd ADMIN_IDS today session_get d user_id (arg # rest) =
     (case topup_if_needed_sync today (ensure_user_sync d user_id) user_id of
        (d2, Inl e) \<Rightarrow> (d2, [Raise e])
      | (d2, Inr n) \<Rightarrow>
          (let (d3, credits) = get_credits d2 user_id
           in if credits < CREDIT_COST_PER_LOOKUP
              then (d3, [Reply (Insufficient_credits credits)])
              else lookup False session_get (filter isdigit (strip arg)) d3 user_id))"
  using assms
  by (auto simp: num_cmd_def ensure_user_def topup_if_needed_def Let_def
           split: prod.splits sum.splits)


text \<open>
  Claim C7. Take a caller who is not an admin and a request with a number of 10 or 12
  digits, on a store whose balance for the caller is a value of the column. The handler
  first creates the account when absent and applies the daily grant when due; when the
  grant raises, the handler ends there. Otherwise let \<open>n\<close> be the balance after the
  grant. When \<open>n\<close> is below \<open>CREDIT_COST_PER_LOOKUP\<close>, the handler answers with the
  insufficient balance \<open>n\<close> and does nothing else: no request is sent and the store is
  the one after the grant. Otherwise the request is sent. When it fails, gives a status
  other than 200, a body that cannot be read, an error body, or no usable record, the
  handler answers with the matching message and the store is still the one after the
  grant. Only when the response holds a non-empty list of usable records is the cost
  deducted: the balance of the caller is \<open>n - CREDIT_COST_PER_LOOKUP\<close>, and nothing
  else in the store changes.
\<close>

theorem num_cmd_standard_gate:
  assumes "user_id \<notin> set ADMIN_IDS"
    and "length (filter isdigit (strip arg)) = 10 \<or> length (filter isdigit (strip arg)) = 12"
    and "fits_int64 (get_credits_sync d user_id)"
  shows
   "(\<forall>d2 e. topup_if_needed today (ensure_user d user_id) user_id = (d2, Inl e) \<longrightarrow>
       num_cmd ADMIN_IDS today session_get d user_id (arg # rest) =
         (ensure_user d user_id, [Raise e])) \<and>
    (\<forall>d2 n. topup_if_needed today (ensure_user d user_id) user_id = (d2, Inr n) \<longrightarrow>
       get_credits_sync d2 user_id = n \<and>
       (n < CREDIT_COST_PER_LOOKUP \<longrightarrow>
          num_cmd ADMIN_IDS today session_get d user_id (arg # rest) =
            (d2, [Reply (Insufficient_credits n)])) \<and>
       (CREDIT_COST_PER_LOOKUP \<le> n \<longrightarrow>
          (\<forall>m. parse_response (session_get (filter isdigit (strip arg))) = Inl m \<longrightarrow>
             num_cmd ADMIN_IDS today session_get d user_id (arg # rest) =
               (d2, [Reply (Looking_up (filter isdigit (strip arg))),
                     HttpGet (filter isdigit (strip arg)), Reply m])) \<and>
          (\<forall>fl. parse_response (session_get (filter isdigit (strip arg))) = Inr fl \<longrightarrow>
             fl \<noteq> [] \<and> list_all usable fl \<and>
             get_credits_sync
               (fst (num_cmd ADMIN_IDS today session_get d user_id (arg # rest))) user_id =
               n - CREDIT_COST_PER_LOOKUP \<and>
             last_topup
               (fst (num_cmd ADMIN_IDS today session_get d user_id (arg # rest))) user_id =
               last_topup d2 user_id \<and>
             (\<forall>v. v \<noteq> user_id \<longrightarrow>
                users (fst (num_cmd ADMIN_IDS today session_get d user_id (arg # rest))) v =
                  users d2 v) \<and>
             codes (fst (num_cmd ADMIN_IDS today session_get d user_id (arg # rest))) =
               codes d2))) \<and>
    parse_response Http_error = Inl Error_calling_api \<and>
    (\<forall>status body. status \<noteq> 200 \<longrightarrow>
       parse_response (Http_response status body) = Inl (Api_status status)) \<and>
    parse_response (Http_response 200 None) = Inl Error_calling_api \<and>
    (\<forall>data m. unwrap_data data = Inl m \<longrightarrow>
       parse_response (Http_response 200 (Some data)) = Inl m) \<and>
    (\<forall>data data_list. unwrap_data data = Inr data_list \<and> filter usable data_list = [] \<longrightarrow>
       parse_response (Http_response 200 (Some data)) = Inl No_result)"
proof -
  let ?num = "filter isdigit (strip arg)"
  let ?d1 = "ensure_user_sync d user_id"
  let ?out = "num_cmd ADMIN_IDS today session_get d user_id (arg # rest)"
  note nc = num_cmd_standard [OF assms(1,2), of today session_get d rest]
  have ex: "users ?d1 user_id \<noteq> None" using users_ensure_user_sync [of d user_id] by simp
  have raise: "?out = (?d1, [Raise e])"
    if "topup_if_needed_sync today ?d1 user_id = (d2, Inl e)" for d2 e
    using that topup_if_needed_sync_error [OF that] nc by simp
  have ok: "get_credits_sync d2 user_id = n \<and>
       (n < CREDIT_COST_PER_LOOKUP \<longrightarrow> ?out = (d2, [Reply (Insufficient_credits n)])) \<and>
       (CREDIT_COST_PER_LOOKUP \<le> n \<longrightarrow>
          (\<forall>m. parse_response (session_get ?num) = Inl m \<longrightarrow>
             ?out = (d2, [Reply (Looking_up ?num), HttpGet ?num, Reply m])) \<and>
          (\<forall>fl. parse_response (session_get ?num) = Inr fl \<longrightarrow>
             fl \<noteq> [] \<and> list_all usable fl \<and>
             get_credits_sync (fst ?out) user_id = n - CREDIT_COST_PER_LOOKUP \<and>
             last_topup (fst ?out) user_id = last_topup d2 user_id \<and>
             (\<forall>v. v \<noteq> user_id \<longrightarrow> users (fst ?out) v = users d2 v) \<and>
             codes (fst ?out) = codes d2))"
    if t: "topup_if_needed_sync today ?d1 user_id = (d2, Inr n)" for d2 n
  proof -
    from topup_if_needed_sync_result [OF ex t] assms(3)
    obtain r where r: "users d2 user_id = Some r" "credits r = n" "fits_int64 n"
      by (auto simp: get_credits_sync_ensure_user_sync)
    have g: "get_credits d2 user_id = (d2, n)" using get_credits_present [OF r(1)] r(2) by simp
    have bal: "get_credits_sync d2 user_id = n" using r by (simp add: get_credits_sync_def)
    have low: "?out = (d2, [Reply (Insufficient_credits n)])" if "n < CREDIT_COST_PER_LOOKUP"
      using that nc t g by simp
    have high: "?out = lookup False session_get ?num d2 user_id"
      if "CREDIT_COST_PER_LOOKUP \<le> n"
      using that nc t g by simp
    have lk: "(\<forall>m. parse_response (session_get ?num) = Inl m \<longrightarrow>
            lookup False session_get ?num d2 user_id =
              (d2, [Reply (Looking_up ?num), HttpGet ?num, Reply m])) \<and>
         (\<forall>fl. parse_response (session_get ?num) = Inr fl \<longrightarrow>
            fst (lookup False session_get ?num d2 user_id) =
              d2\<lparr>users := (users d2)(user_id \<mapsto> r\<lparr>credits := n - CREDIT_COST_PER_LOOKUP\<rparr>)\<rparr>)"
      if "CREDIT_COST_PER_LOOKUP \<le> n"
      using lookup_standard [of d2 user_id r session_get ?num] r that by simp
    show ?thesis
      using bal low high lk parse_response_Inr r(1)
      by (auto simp: get_credits_sync_def last_topup_def)
  qed
  have A: "\<forall>d2 e. topup_if_needed_sync today ?d1 user_id = (d2, Inl e) \<longrightarrow>
      ?out = (?d1, [Raise e])"
    using raise by blast
  have B: "\<forall>d2 n. topup_if_needed_sync today ?d1 user_id = (d2, Inr n) \<longrightarrow>
       get_credits_sync d2 user_id = n \<and>
       (n < CREDIT_COST_PER_LOOKUP \<longrightarrow> ?out = (d2, [Reply (Insufficient_credits n)])) \<and>
       (CREDIT_COST_PER_LOOKUP \<le> n \<longrightarrow>
          (\<forall>m. parse_response (session_get ?num) = Inl m \<longrightarrow>
             ?out = (d2, [Reply (Looking_up ?num), HttpGet ?num, Reply m])) \<and>
          (\<forall>fl. parse_response (session_get ?num) = Inr fl \<longrightarrow>
             fl \<noteq> [] \<and> list_all usable fl \<and>
             get_credits_sync (fst ?out) user_id = n - CREDIT_COST_PER_LOOKUP \<and>
             last_topup (fst ?out) user_id = last_topup d2 user_id \<and>
             (\<forall>v. v \<noteq> user_id \<longrightarrow> users (fst ?out) v = users d2 v) \<and>
             codes (fst ?out) = codes d2))"
    using ok by blast
  have C: "parse_response Http_error = Inl Error_calling_api \<and>
    (\<forall>status body. status \<noteq> 200 \<longrightarrow>
       parse_response (Http_response status body) = Inl (Api_status status)) \<and>
    parse_response (Http_response 200 None) = Inl Error_calling_api \<and>
    (\<forall>data m. unwrap_data data = Inl m \<longrightarrow>
       parse_response (Http_response 200 (Some data)) = Inl m) \<and>
    (\<forall>data data_list. unwrap_data data = Inr data_list \<and> filter usable data_list = [] \<longrightarrow>
       parse_response (Http_response 200 (Some data)) = Inl No_result)"
    by (simp add: parse_response_def)
  show ?thesis
    unfolding ensure_user_def topup_if_needed_def
    by (rule conjI [OF A conjI [OF B C]])
qed


theorem num_cmd_standard_gate_witness:
  "7 \<notin> set [1 :: int] \<and>
   length (filter isdigit (strip ''7986782429'')) = 10 \<and>
   fits_int64 (get_credits_sync db_alice 7) \<and>
   topup_if_needed ''2024-05-02'' (ensure_user db_alice 7) 7 =
     (db_alice\<lparr>users := [7 \<mapsto> \<lparr>credits = 33, last_topup_date = Some ''2024-05-02''\<rparr>]\<rparr>,
      Inr 33) \<and>
   CREDIT_COST_PER_LOOKUP \<le> 33 \<and>
   parse_response (api_one_record (filter isdigit (strip ''7986782429''))) =
     Inr [JDict [(''mobile'', JStr ''7986782429''), (''name'', JStr ''A B'')]] \<and>
   get_credits_sync
     (fst (num_cmd [1] ''2024-05-02'' api_one_record db_alice 7 [''7986782429''])) 7 = 32 \<and>
   parse_response (api_down (filter isdigit (strip ''7986782429''))) =
     Inl Error_calling_api \<and>
   num_cmd [1] ''2024-05-02'' api_down db_alice 7 [''7986782429''] =
     (db_alice\<lparr>users := [7 \<mapsto> \<lparr>credits = 33, last_topup_date = Some ''2024-05-02''\<rparr>]\<rparr>,
      [Reply (Looking_up ''7986782429''), HttpGet ''7986782429'', Reply Error_calling_api]) \<and>
   parse_response (api_no_records (filter isdigit (strip ''7986782429''))) = Inl No_result \<and>
   num_cmd [1] ''2024-05-02'' api_no_records db_alice 7 [''7986782429''] =
     (db_alice\<lparr>users := [7 \<mapsto> \<lparr>credits = 33, last_topup_date = Some ''2024-05-02''\<rparr>]\<rparr>,
      [Reply (Looking_up ''7986782429''), HttpGet ''7986782429'', Reply No_result]) \<and>
   fits_int64 (get_credits_sync db_broke 7) \<and>
   topup_if_needed ''2024-05-02'' (ensure_user db_broke 7) 7 = (db_broke, Inr 0) \<and>
   0 < CREDIT_COST_PER_LOOKUP \<and>
   num_cmd [1] ''2024-05-02'' api_one_record db_broke 7 [''7986782429''] =
     (db_broke, [Reply (Insufficient_credits 0)])"
proof -
  let ?g = "db_alice\<lparr>users := [7 \<mapsto> \<lparr>credits = 33, last_topup_date = Some ''2024-05-02''\<rparr>]\<rparr>"
  let ?num = "filter isdigit (strip ''7986782429'')"
  have a: "7 \<notin> set [1 :: int]" by simp
  have nd: "?num = ''7986782429''"
    by (simp add: strip_def isspace_def isdigit_def digit_of_def)
  have n: "length ?num = 10 \<or> length ?num = 12" by (simp add: nd)
  have f: "fits_int64 (get_credits_sync db_alice 7)"
    by (simp add: get_credits_sync_def db_alice_def fits_int64_def)
  have f': "fits_int64 (get_credits_sync db_broke 7)"
    by (simp add: get_credits_sync_def db_broke_def fits_int64_def)
  have t: "topup_if_needed ''2024-05-02'' (ensure_user db_alice 7) 7 = (?g, Inr 33)"
    by (simp add: topup_if_needed_def topup_if_needed_sync_def ensure_user_def
          ensure_user_sync_def db_alice_def fits_int64_def DAILY_FREE_CREDITS_def Let_def)
  have t': "topup_if_needed ''2024-05-02'' (ensure_user db_broke 7) 7 = (db_broke, Inr 0)"
    by (simp add: topup_if_needed_def topup_if_needed_sync_def ensure_user_def
          ensure_user_sync_def db_broke_def)
  have c: "CREDIT_COST_PER_LOOKUP \<le> 33" and c': "0 < CREDIT_COST_PER_LOOKUP"
    by (simp_all add: CREDIT_COST_PER_LOOKUP_def)
  have p: "parse_response (api_one_record ?num) =
      Inr [JDict [(''mobile'', JStr ''7986782429''), (''name'', JStr ''A B'')]]"
    by (simp add: nd parse_response_def api_one_record_def unwrap_data_def usable_def
          record_keys_def truthy_opt_def)
  have q: "parse_response (api_down ?num) = Inl Error_calling_api"
    by (simp add: parse_response_def api_down_def)
  have e: "parse_response (api_no_records ?num) = Inl No_result"
    by (simp add: parse_response_def api_no_records_def unwrap_data_def
          single_record_keys_def)
  from num_cmd_standard_gate [OF a n f, of "''2024-05-02''" api_one_record "[]"] t c p
  have r1: "get_credits_sync
      (fst (num_cmd [1] ''2024-05-02'' api_one_record db_alice 7 [''7986782429''])) 7 =
      33 - CREDIT_COST_PER_LOOKUP"
    by blast
  from num_cmd_standard_gate [OF a n f, of "''2024-05-02''" api_down "[]"] t c q
  have r2: "num_cmd [1] ''2024-05-02'' api_down db_alice 7 [''7986782429''] =
      (?g, [Reply (Looking_up ?num), HttpGet ?num, Reply Error_calling_api])"
    by blast
  from num_cmd_standard_gate [OF a n f, of "''2024-05-02''" api_no_records "[]"] t c e
  have r4: "num_cmd [1] ''2024-05-02'' api_no_records db_alice 7 [''7986782429''] =
      (?g, [Reply (Looking_up ?num), HttpGet ?num, Reply No_result])"
    by blast
  have r4': "num_cmd [1] ''2024-05-02'' api_no_records db_alice 7 [''7986782429''] =
      (?g, [Reply (Looking_up ''7986782429''), HttpGet ''7986782429'', Reply No_result])"
    using r4 by (simp only: nd)
  from num_cmd_standard_gate [OF a n f', of "''2024-05-02''" api_one_record "[]"] t' c'
  have r3: "num_cmd [1] ''2024-05-02'' api_one_record db_broke 7 [''7986782429''] =
      (db_broke, [Reply (Insufficient_credits 0)])"
    by blast
  have r1': "get_credits_sync
      (fst (num_cmd [1] ''2024-05-02'' api_one_record db_alice 7 [''7986782429''])) 7 = 32"
    using r1 by (simp add: CREDIT_COST_PER_LOOKUP_def)
  have r2': "num_cmd [1] ''2024-05-02'' api_down db_alice 7 [''7986782429''] =
      (?g, [Reply (Looking_up ''7986782429''), HttpGet ''7986782429'',
            Reply Error_calling_api])"
    using r2 by (simp only: nd)
  show ?thesis
    by (intro conjI a f t c p r1' q r2' e r4' f' t' c' r3) (simp add: nd)
qed

section \<open>Concurrent redemptions of one code\<close>

lemma length_calls_step_call [simp]: "length (calls (step_call code i s)) = length (calls s)"
  by (simp add: step_call_def Let_def split: phase.splits prod.splits)

lemma step_call_out_of_range: "length (calls s) \<le> i \<Longrightarrow> step_call code i s = s"
  by (simp add: step_call_def)

lemma step_call_caller:
  "j < length (calls s) \<Longrightarrow>
     caller (calls (step_call code i s) ! j) = caller (calls s ! j) \<and>
     clock (calls (step_call code i s) ! j) = clock (calls s ! j)"
  by (cases "j = i")
     (simp_all add: step_call_def Let_def nth_list_update split: phase.splits prod.splits)

lemma callers_fit_step_call: "callers_fit d r s \<Longrightarrow> callers_fit d r (step_call code i s)"
  by (simp add: callers_fit_def step_call_caller)


lemma lock_ok_waiting:
  assumes "lock_ok s" and "i < length (calls s)" and "phase (calls s ! i) = Waiting"
    and "\<not> DB_LOCK s"
  shows "lock_ok (s\<lparr>DB_LOCK := True, calls := (calls s)[i := (calls s ! i)\<lparr>phase := Holding\<rparr>]\<rparr>)"
proof -
  from assms(1,4) have nb: "\<forall>j<length (calls s). \<not> busy (phase (calls s ! j))"
    by (auto simp: lock_ok_def)
  show ?thesis
    unfolding lock_ok_def
  proof (intro conjI allI impI)
    show "DB_LOCK (s\<lparr>DB_LOCK := True, calls := (calls s)[i := (calls s ! i)\<lparr>phase := Holding\<rparr>]\<rparr>) =
      (\<exists>j<length (calls (s\<lparr>DB_LOCK := True, calls := (calls s)[i := (calls s ! i)\<lparr>phase := Holding\<rparr>]\<rparr>)).
         busy (phase (calls (s\<lparr>DB_LOCK := True, calls := (calls s)[i := (calls s ! i)\<lparr>phase := Holding\<rparr>]\<rparr>) ! j)))"
      using assms(2) by (auto intro!: exI [of _ i])
  next
    fix j k
    assume "j < length (calls (s\<lparr>DB_LOCK := True, calls := (calls s)[i := (calls s ! i)\<lparr>phase := Holding\<rparr>]\<rparr>))"
      and "k < length (calls (s\<lparr>DB_LOCK := True, calls := (calls s)[i := (calls s ! i)\<lparr>phase := Holding\<rparr>]\<rparr>))"
      and "busy (phase (calls (s\<lparr>DB_LOCK := True, calls := (calls s)[i := (calls s ! i)\<lparr>phase := Holding\<rparr>]\<rparr>) ! j)) \<and>
           busy (phase (calls (s\<lparr>DB_LOCK := True, calls := (calls s)[i := (calls s ! i)\<lparr>phase := Holding\<rparr>]\<rparr>) ! k))"
    then show "j = k"
      using nb assms(2) by (auto simp: nth_list_update split: if_splits)
  qed
qed

lemma lock_ok_same_busy:
  assumes "lock_ok s" and "length (calls s') = length (calls s)"
    and "\<And>j. j < length (calls s) \<Longrightarrow>
           busy (phase (calls s' ! j)) = busy (phase (calls s ! j))"
    and "DB_LOCK s' = DB_LOCK s"
  shows "lock_ok s'"
  using assms unfolding lock_ok_def by (simp cong: conj_cong)

lemma lock_ok_holding:
  assumes "lock_ok s" and "i < length (calls s)" and "phase (calls s ! i) = Holding"
  shows "lock_ok (s\<lparr>DB := d', calls := (calls s)[i := (calls s ! i)\<lparr>phase := Ran res\<rparr>]\<rparr>)"
proof (rule lock_ok_same_busy [OF assms(1)])
  fix j assume "j < length (calls s)"
  then show "busy (phase (calls (s\<lparr>DB := d', calls := (calls s)[i := (calls s ! i)\<lparr>phase := Ran res\<rparr>]\<rparr>) ! j)) =
      busy (phase (calls s ! j))"
    using assms(2,3) by (cases "j = i") simp_all
qed simp_all

lemma lock_ok_ran:
  assumes "lock_ok s" and "i < length (calls s)" and "phase (calls s ! i) = Ran res"
  shows "lock_ok (s\<lparr>DB_LOCK := False, calls := (calls s)[i := (calls s ! i)\<lparr>phase := Finished res\<rparr>]\<rparr>)"
proof -
  have only: "j = i" if "j < length (calls s)" and "busy (phase (calls s ! j))" for j
  proof -
    from assms(1) have "\<forall>a<length (calls s). \<forall>b<length (calls s).
         busy (phase (calls s ! a)) \<and> busy (phase (calls s ! b)) \<longrightarrow> a = b"
      by (simp add: lock_ok_def)
    with that assms(2,3) show ?thesis by auto
  qed
  have nb: "\<not> busy (phase (((calls s)[i := (calls s ! i)\<lparr>phase := Finished res\<rparr>]) ! j))"
    if "j < length (calls s)" for j
  proof (cases "j = i")
    case True
    then show ?thesis using assms(2) by simp
  next
    case False
    with only [OF that] show ?thesis by auto
  qed
  show ?thesis unfolding lock_ok_def using nb by simp
qed


lemma ran_same_outcome:
  assumes "length (calls s') = length (calls s)"
    and "\<And>j. j < length (calls s) \<Longrightarrow>
           outcome (phase (calls s' ! j)) = outcome (phase (calls s ! j)) \<and>
           caller (calls s' ! j) = caller (calls s ! j) \<and>
           clock (calls s' ! j) = clock (calls s ! j)"
    and "DB s' = DB s"
  shows "(none_ran d s \<longrightarrow> none_ran d s') \<and> (won d code r s w \<longrightarrow> won d code r s' w)"
  using assms by (simp add: none_ran_def won_def)

lemma first_redeems:
  assumes "codes d code = Some r" and "used_by r = None"
    and "i < length (calls s)" and "phase (calls s ! i) = Holding"
    and "callers_fit d r s" and "none_ran d s"
    and "redeem_code_sync (clock (calls s ! i)) (DB s) code (caller (calls s ! i)) = (d', res)"
  shows "won d code r (s\<lparr>DB := d', calls := (calls s)[i := (calls s ! i)\<lparr>phase := Ran res\<rparr>]\<rparr>) i"
proof -
  let ?t = "calls s ! i"
  from assms(6) have db: "DB s = d"
    and none: "\<And>j. j < length (calls s) \<Longrightarrow> outcome (phase (calls s ! j)) = None"
    by (simp_all add: none_ran_def)
  from assms(3,5) have ft: "fits_int64 (get_credits_sync d (caller ?t) + amount r)"
    by (simp add: callers_fit_def)
  from redeem_code_sync_unused [OF assms(1,2) ft, of "clock ?t"] assms(7) db
  have res: "res = Inr (True, Amount (amount r))"
    and d': "d' = fst (redeem_code_sync (clock ?t) d code (caller ?t))"
    by simp_all
  show ?thesis
    using assms(3) res d' none by (simp add: won_def nth_list_update)
qed

lemma later_finds_used:
  assumes "codes d code = Some r" and "used_by r = None"
    and "i < length (calls s)" and "phase (calls s ! i) = Holding"
    and "callers_fit d r s" and "won d code r s w"
    and "redeem_code_sync (clock (calls s ! i)) (DB s) code (caller (calls s ! i)) = (d', res)"
  shows "won d code r (s\<lparr>DB := d', calls := (calls s)[i := (calls s ! i)\<lparr>phase := Ran res\<rparr>]\<rparr>) w"
proof -
  let ?t = "calls s ! i"
  let ?w = "calls s ! w"
  from assms(6) have w: "w < length (calls s)"
    and ow: "outcome (phase ?w) = Some (Inr (True, Amount (amount r)))"
    and db: "DB s = fst (redeem_code_sync (clock ?w) d code (caller ?w))"
    and others: "\<And>j. j < length (calls s) \<Longrightarrow> j \<noteq> w \<Longrightarrow>
         outcome (phase (calls s ! j)) = None \<or>
         outcome (phase (calls s ! j)) = Some (Inr (False, Msg ''Code already used''))"
    by (simp_all add: won_def)
  from ow assms(4) have neq: "i \<noteq> w" by auto
  from w assms(5) have ft: "fits_int64 (get_credits_sync d (caller ?w) + amount r)"
    by (simp add: callers_fit_def)
  from redeem_code_sync_unused [OF assms(1,2) ft, of "clock ?w"] db
  have row: "codes (DB s) code = Some (r\<lparr>used_by := Some (caller ?w), used_at := Some (clock ?w)\<rparr>)"
    by simp
  have "used_by (r\<lparr>used_by := Some (caller ?w), used_at := Some (clock ?w)\<rparr>) \<noteq> None" by simp
  from redeem_code_sync_used [OF row this, of "clock ?t" "caller ?t"] assms(7)
  have res: "res = Inr (False, Msg ''Code already used'')" and d': "d' = DB s" by simp_all
  show ?thesis
    using w ow db others neq assms(3) res d' by (simp add: won_def nth_list_update)
qed


lemma loop_inv_step_call:
  assumes "codes d code = Some r" and "used_by r = None" and "loop_inv d code r s"
  shows "loop_inv d code r (step_call code i s)"
proof (cases "length (calls s) \<le> i")
  case True
  then show ?thesis using assms(3) by (simp add: step_call_out_of_range)
next
  case False
  then have i: "i < length (calls s)" by simp
  let ?t = "calls s ! i"
  from assms(3) have lk: "lock_ok s" and cf: "callers_fit d r s"
    and ran: "none_ran d s \<or> (\<exists>w. won d code r s w)"
    by (simp_all add: loop_inv_def)
  have cf': "callers_fit d r (step_call code i s)" by (rule callers_fit_step_call [OF cf])
  show ?thesis
  proof (cases "phase ?t")
    case Waiting
    show ?thesis
    proof (cases "DB_LOCK s")
      case True
      then show ?thesis using assms(3) i Waiting by (simp add: step_call_def)
    next
      case False
      let ?s' = "s\<lparr>DB_LOCK := True, calls := (calls s)[i := ?t\<lparr>phase := Holding\<rparr>]\<rparr>"
      have st: "step_call code i s = ?s'" using i Waiting False by (simp add: step_call_def)
      have same: "outcome (phase (calls ?s' ! j)) = outcome (phase (calls s ! j)) \<and>
           caller (calls ?s' ! j) = caller (calls s ! j) \<and>
           clock (calls ?s' ! j) = clock (calls s ! j)" if "j < length (calls s)" for j
        using that i Waiting by (cases "j = i") simp_all
      have "length (calls ?s') = length (calls s)" and "DB ?s' = DB s" by simp_all
      from ran_same_outcome [OF this(1) same this(2)] ran
      have "none_ran d ?s' \<or> (\<exists>w. won d code r ?s' w)" by blast
      with lock_ok_waiting [OF lk i Waiting False] cf' st show ?thesis
        by (simp add: loop_inv_def)
    qed
  next
    case Holding
    obtain d' res where rd: "redeem_code_sync (clock ?t) (DB s) code (caller ?t) = (d', res)"
      by (cases "redeem_code_sync (clock ?t) (DB s) code (caller ?t)")
    let ?s' = "s\<lparr>DB := d', calls := (calls s)[i := ?t\<lparr>phase := Ran res\<rparr>]\<rparr>"
    have st: "step_call code i s = ?s'" using i Holding rd by (simp add: step_call_def)
    from ran have "\<exists>w. won d code r ?s' w"
    proof
      assume "none_ran d s"
      from first_redeems [OF assms(1,2) i Holding cf this rd] show ?thesis ..
    next
      assume "\<exists>w. won d code r s w"
      then obtain w where "won d code r s w" ..
      from later_finds_used [OF assms(1,2) i Holding cf this rd] show ?thesis ..
    qed
    with lock_ok_holding [OF lk i Holding, where d' = d' and res = res] cf' st show ?thesis
      by (simp add: loop_inv_def)
  next
    case (Ran res)
    let ?s' = "s\<lparr>DB_LOCK := False, calls := (calls s)[i := ?t\<lparr>phase := Finished res\<rparr>]\<rparr>"
    have st: "step_call code i s = ?s'" using i Ran by (simp add: step_call_def)
    have same: "outcome (phase (calls ?s' ! j)) = outcome (phase (calls s ! j)) \<and>
         caller (calls ?s' ! j) = caller (calls s ! j) \<and>
         clock (calls ?s' ! j) = clock (calls s ! j)" if "j < length (calls s)" for j
      using that i Ran by (cases "j = i") simp_all
    have "length (calls ?s') = length (calls s)" and "DB ?s' = DB s" by simp_all
    from ran_same_outcome [OF this(1) same this(2)] ran
    have "none_ran d ?s' \<or> (\<exists>w. won d code r ?s' w)" by blast
    with lock_ok_ran [OF lk i Ran] cf' st show ?thesis
      by (simp add: loop_inv_def)
  next
    case (Finished res)
    then show ?thesis using assms(3) i by (simp add: step_call_def)
  qed
qed

lemma loop_inv_run_schedule:
  "codes d code = Some r \<Longrightarrow> used_by r = None \<Longrightarrow> loop_inv d code r s \<Longrightarrow>
     loop_inv d code r (run_schedule code schedule s)"
proof (induction schedule arbitrary: s)
  case Nil
  then show ?case by (simp add: run_schedule_def)
next
  case (Cons i schedule)
  from loop_inv_step_call [OF Cons.prems] have "loop_inv d code r (step_call code i s)" .
  from Cons.IH [OF Cons.prems(1,2) this] show ?case by (simp add: run_schedule_def)
qed

lemma loop_inv_start:
  assumes "\<forall>u\<in>set (map fst users_and_clocks). fits_int64 (get_credits_sync d u + amount r)"
  shows "loop_inv d code r (start d users_and_clocks)"
proof -
  have "fits_int64 (get_credits_sync d (fst (users_and_clocks ! i)) + amount r)"
    if "i < length users_and_clocks" for i
    using assms nth_mem [OF that] by simp
  then show ?thesis
    by (simp add: loop_inv_def lock_ok_def callers_fit_def none_ran_def start_def
          case_prod_beta)
qed


lemma run_schedule_callers:
  "length (calls (run_schedule code schedule s)) = length (calls s) \<and>
   (\<forall>j<length (calls s).
      caller (calls (run_schedule code schedule s) ! j) = caller (calls s ! j) \<and>
      clock (calls (run_schedule code schedule s) ! j) = clock (calls s ! j))"
proof (induction schedule arbitrary: s)
  case Nil
  then show ?case by (simp add: run_schedule_def)
next
  case (Cons i schedule)
  from Cons.IH [of "step_call code i s"] show ?case
    by (simp add: run_schedule_def step_call_caller)
qed

lemma finished_outcome:
  "finished p \<Longrightarrow> outcome p \<noteq> None \<and> (outcome p = Some x \<longrightarrow> p = Finished x)"
  by (cases p) simp_all

lemma db_granted_max_eq:
  "db_granted_max =
     \<lparr>users = [7 \<mapsto> \<lparr>credits = 30, last_topup_date = Some ''2024-05-01''\<rparr>],
      codes = [''max'' \<mapsto> \<lparr>amount = 2 ^ 63 - 1, created_by = 1,
                 created_at = ''2024-05-01T10:00:00'', used_by = None, used_at = None\<rparr>]\<rparr>"
  by (simp add: db_granted_max_def run_ops_def topup_if_needed_def topup_if_needed_sync_def
        code_cmd_issue_def generate_code_def generate_code_sync_def init_db_def
        fits_int64_def DAILY_FREE_CREDITS_def Let_def)

text \<open>Some schedule lets every call return: the calls one after the other.\<close>

lemma three_steps:
  assumes "i < length (calls s)" and "phase (calls s ! i) = Waiting" and "\<not> DB_LOCK s"
  shows "\<exists>d' res. step_call code i (step_call code i (step_call code i s)) =
           s\<lparr>DB_LOCK := False, DB := d',
             calls := (calls s)[i := (calls s ! i)\<lparr>phase := Finished res\<rparr>]\<rparr>"
proof -
  let ?t = "calls s ! i"
  let ?s1 = "s\<lparr>DB_LOCK := True, calls := (calls s)[i := ?t\<lparr>phase := Holding\<rparr>]\<rparr>"
  have s1: "step_call code i s = ?s1" using assms by (simp add: step_call_def)
  obtain d' res where rd: "redeem_code_sync (clock ?t) (DB s) code (caller ?t) = (d', res)"
    by (cases "redeem_code_sync (clock ?t) (DB s) code (caller ?t)")
  let ?s2 = "s\<lparr>DB_LOCK := True, DB := d', calls := (calls s)[i := ?t\<lparr>phase := Ran res\<rparr>]\<rparr>"
  have s2: "step_call code i ?s1 = ?s2" using assms(1) rd by (simp add: step_call_def)
  have s3: "step_call code i ?s2 =
      s\<lparr>DB_LOCK := False, DB := d', calls := (calls s)[i := ?t\<lparr>phase := Finished res\<rparr>]\<rparr>"
    using assms(1) by (simp add: step_call_def)
  from s1 s2 s3 have "step_call code i (step_call code i (step_call code i s)) =
      s\<lparr>DB_LOCK := False, DB := d', calls := (calls s)[i := ?t\<lparr>phase := Finished res\<rparr>]\<rparr>"
    by simp
  then show ?thesis by blast
qed

lemma sequential_finishes:
  assumes "\<not> DB_LOCK s" and "k \<le> length (calls s)"
    and "\<forall>j<length (calls s). j < k \<longrightarrow> finished (phase (calls s ! j))"
    and "\<forall>j<length (calls s). k \<le> j \<longrightarrow> phase (calls s ! j) = Waiting"
  shows "all_finished
           (run_schedule code (concat (map (\<lambda>i. [i, i, i]) [k..<length (calls s)])) s)"
  using assms
proof (induction "length (calls s) - k" arbitrary: s k)
  case 0
  then show ?case by (simp add: run_schedule_def all_finished_def list_all_length)
next
  case (Suc m)
  then have k: "k < length (calls s)" by simp
  from Suc.prems(4) k have w: "phase (calls s ! k) = Waiting" by simp
  from three_steps [OF k w Suc.prems(1), of code] obtain d' res where
    st: "step_call code k (step_call code k (step_call code k s)) =
           s\<lparr>DB_LOCK := False, DB := d',
             calls := (calls s)[k := (calls s ! k)\<lparr>phase := Finished res\<rparr>]\<rparr>"
    by blast
  let ?s' = "s\<lparr>DB_LOCK := False, DB := d',
             calls := (calls s)[k := (calls s ! k)\<lparr>phase := Finished res\<rparr>]\<rparr>"
  have len: "length (calls ?s') = length (calls s)" by simp
  have a: "m = length (calls ?s') - Suc k" using Suc.hyps(2) by simp
  have b: "\<not> DB_LOCK ?s'" by simp
  have c: "Suc k \<le> length (calls ?s')" using k by simp
  have d: "\<forall>j<length (calls ?s'). j < Suc k \<longrightarrow> finished (phase (calls ?s' ! j))"
    using Suc.prems(3) k by (auto simp: nth_list_update less_Suc_eq)
  have e: "\<forall>j<length (calls ?s'). Suc k \<le> j \<longrightarrow> phase (calls ?s' ! j) = Waiting"
    using Suc.prems(4) k by (auto simp: nth_list_update)
  from Suc.hyps(1) [OF a b c d e]
  have "all_finished
     (run_schedule code (concat (map (\<lambda>i. [i, i, i]) [Suc k..<length (calls s)])) ?s')"
    by simp
  then show ?case using k st by (simp add: run_schedule_def upt_conv_Cons)
qed

lemma sequential_schedule_finishes:
  "all_finished
     (run_schedule code (concat (map (\<lambda>i. [i, i, i]) [0..<length users_and_clocks]))
        (start d users_and_clocks))"
proof -
  have "length (calls (start d users_and_clocks)) = length users_and_clocks"
    by (simp add: start_def)
  moreover have "all_finished
     (run_schedule code
        (concat (map (\<lambda>i. [i, i, i]) [0..<length (calls (start d users_and_clocks))]))
        (start d users_and_clocks))"
    by (rule sequential_finishes) (simp_all add: start_def case_prod_beta)
  ultimately show ?thesis by simp
qed

text \<open>
  Claim C2, as stated: of the concurrent redemptions of a code exactly one succeeds. Two
  calls redeem the code of \<open>2 ^ 63 - 1\<close> credits, the first for the user who holds 30
  credits, the second for a user without an account. The first call takes the lock,
  marks the code used and raises \<open>OverflowError\<close>; the second finds the code used. No
  call succeeds and no balance changes.
\<close>

theorem concurrent_redeem_overflow:
  "map phase (calls (run_schedule ''max'' [0, 0, 0, Suc 0, Suc 0, Suc 0]
     (start db_granted_max [(7, ''2024-05-01T11:00:00''), (8, ''2024-05-01T11:00:01'')]))) =
     [Finished (Inl OverflowError), Finished (Inr (False, Msg ''Code already used''))] \<and>
   get_credits_sync db_granted_max 7 = 30 \<and>
   get_credits_sync (DB (run_schedule ''max'' [0, 0, 0, Suc 0, Suc 0, Suc 0]
     (start db_granted_max [(7, ''2024-05-01T11:00:00''), (8, ''2024-05-01T11:00:01'')]))) 7 = 30 \<and>
   get_credits_sync (DB (run_schedule ''max'' [0, 0, 0, Suc 0, Suc 0, Suc 0]
     (start db_granted_max [(7, ''2024-05-01T11:00:00''), (8, ''2024-05-01T11:00:01'')]))) 8 = 0"
  by (simp add: run_schedule_def start_def step_call_def db_granted_max_eq
        redeem_code_sync_def get_credits_sync_def fits_int64_def Let_def)


text \<open>
  Claim C2, amended. Take a code that is unused and any number of concurrent calls of
  \<open>redeem_code\<close> on it, at least one, by callers whose balance plus the amount of the
  code is a value of the column (at most \<open>2 ^ 63 - 1\<close>). In whatever order the calls
  take their steps, once all of them have returned exactly one call has succeeded, with
  the amount, and every other call has failed with \<open>Code already used\<close>; the balance of
  the caller who succeeded has increased by the amount exactly once, and no other balance
  has changed. By \<open>sequential_schedule_finishes\<close> there is an order in which all calls
  return.
\<close>

theorem concurrent_redeem_once:
  assumes "codes d code = Some r" and "used_by r = None"
    and "\<forall>u\<in>set (map fst users_and_clocks). fits_int64 (get_credits_sync d u + amount r)"
    and "users_and_clocks \<noteq> []"
    and "all_finished (run_schedule code schedule (start d users_and_clocks))"
  shows "\<exists>w<length users_and_clocks.
           phase (calls (run_schedule code schedule (start d users_and_clocks)) ! w) =
             Finished (Inr (True, Amount (amount r))) \<and>
           (\<forall>j<length users_and_clocks. j \<noteq> w \<longrightarrow>
              phase (calls (run_schedule code schedule (start d users_and_clocks)) ! j) =
                Finished (Inr (False, Msg ''Code already used''))) \<and>
           get_credits_sync (DB (run_schedule code schedule (start d users_and_clocks)))
               (fst (users_and_clocks ! w)) =
             get_credits_sync d (fst (users_and_clocks ! w)) + amount r \<and>
           (\<forall>v. v \<noteq> fst (users_and_clocks ! w) \<longrightarrow>
              users (DB (run_schedule code schedule (start d users_and_clocks))) v =
                users d v)"
proof -
  let ?init = "start d users_and_clocks"
  let ?s = "run_schedule code schedule ?init"
  have len0: "length (calls ?init) = length users_and_clocks" by (simp add: start_def)
  have call0: "caller (calls ?init ! j) = fst (users_and_clocks ! j)"
    if "j < length users_and_clocks" for j
    using that by (simp add: start_def case_prod_beta)
  from run_schedule_callers [of code schedule ?init] len0 call0
  have len: "length (calls ?s) = length users_and_clocks"
    and call: "\<And>j. j < length users_and_clocks \<Longrightarrow>
                 caller (calls ?s ! j) = fst (users_and_clocks ! j)"
    by simp_all
  from assms(5) len have fin: "\<And>j. j < length users_and_clocks \<Longrightarrow>
      finished (phase (calls ?s ! j))"
    by (simp add: all_finished_def list_all_length)
  from loop_inv_run_schedule [OF assms(1,2) loop_inv_start [OF assms(3)]]
  have inv: "loop_inv d code r ?s" .
  from assms(4) have pos: "0 < length users_and_clocks" by simp
  from fin [OF pos] finished_outcome have "outcome (phase (calls ?s ! 0)) \<noteq> None" by blast
  with pos len have "\<not> none_ran d ?s" by (auto simp: none_ran_def)
  with inv obtain w where w: "won d code r ?s w" by (auto simp: loop_inv_def)
  from w len have wl: "w < length users_and_clocks"
    and ow: "outcome (phase (calls ?s ! w)) = Some (Inr (True, Amount (amount r)))"
    and db: "DB ?s = fst (redeem_code_sync (clock (calls ?s ! w)) d code (caller (calls ?s ! w)))"
    and others: "\<And>j. j < length users_and_clocks \<Longrightarrow> j \<noteq> w \<Longrightarrow>
         outcome (phase (calls ?s ! j)) = None \<or>
         outcome (phase (calls ?s ! j)) = Some (Inr (False, Msg ''Code already used''))"
    by (simp_all add: won_def)
  from fin [OF wl] ow finished_outcome
  have pw: "phase (calls ?s ! w) = Finished (Inr (True, Amount (amount r)))" by blast
  have po: "phase (calls ?s ! j) = Finished (Inr (False, Msg ''Code already used''))"
    if "j < length users_and_clocks" and "j \<noteq> w" for j
    using fin [OF that(1)] others [OF that] finished_outcome by blast
  let ?u = "fst (users_and_clocks ! w)"
  from wl assms(3) have "fits_int64 (get_credits_sync d ?u + amount r)"
    using nth_mem [OF wl] by simp
  from redeem_code_sync_unused [OF assms(1,2) this, of "clock (calls ?s ! w)"] db call [OF wl]
  have bal: "get_credits_sync (DB ?s) ?u = get_credits_sync d ?u + amount r"
    and rest: "\<forall>v. v \<noteq> ?u \<longrightarrow> users (DB ?s) v = users d v"
    by simp_all
  from wl pw po bal rest show ?thesis by blast
qed

theorem concurrent_redeem_once_witness:
  "codes db_gift ''abc'' = Some \<lparr>amount = 100, created_by = 1,
       created_at = ''2024-05-01T10:00:00'', used_by = None, used_at = None\<rparr> \<and>
   fits_int64 (get_credits_sync db_gift 7 + 100) \<and>
   fits_int64 (get_credits_sync db_gift 8 + 100) \<and>
   all_finished (run_schedule ''abc'' [Suc 0, 0, Suc 0, Suc 0, 0, 0, 0]
     (start db_gift [(7, ''2024-05-02T08:00:00''), (8, ''2024-05-02T08:00:01'')])) \<and>
   map phase (calls (run_schedule ''abc'' [Suc 0, 0, Suc 0, Suc 0, 0, 0, 0]
     (start db_gift [(7, ''2024-05-02T08:00:00''), (8, ''2024-05-02T08:00:01'')]))) =
     [Finished (Inr (False, Msg ''Code already used'')), Finished (Inr (True, Amount 100))] \<and>
   get_credits_sync (DB (run_schedule ''abc'' [Suc 0, 0, Suc 0, Suc 0, 0, 0, 0]
     (start db_gift [(7, ''2024-05-02T08:00:00''), (8, ''2024-05-02T08:00:01'')]))) 8 = 100 \<and>
   get_credits_sync (DB (run_schedule ''abc'' [Suc 0, 0, Suc 0, Suc 0, 0, 0, 0]
     (start db_gift [(7, ''2024-05-02T08:00:00''), (8, ''2024-05-02T08:00:01'')]))) 7 = 3 \<and>
   (\<exists>w<2. phase (calls (run_schedule ''abc'' [Suc 0, 0, Suc 0, Suc 0, 0, 0, 0]
     (start db_gift [(7, ''2024-05-02T08:00:00''), (8, ''2024-05-02T08:00:01'')])) ! w) =
       Finished (Inr (True, Amount 100)))"
proof -
  let ?r = "\<lparr>amount = 100, created_by = 1,
       created_at = ''2024-05-01T10:00:00'', used_by = None, used_at = None\<rparr>"
  let ?cs = "[(7 :: int, ''2024-05-02T08:00:00''), (8, ''2024-05-02T08:00:01'')]"
  let ?s = "run_schedule ''abc'' [Suc 0, 0, Suc 0, Suc 0, 0, 0, 0] (start db_gift ?cs)"
  have c: "codes db_gift ''abc'' = Some ?r" by (simp add: db_gift_def)
  have u: "used_by ?r = None" by simp
  have f7: "fits_int64 (get_credits_sync db_gift 7 + 100)"
    and f8: "fits_int64 (get_credits_sync db_gift 8 + 100)"
    by (simp_all add: get_credits_sync_def db_gift_def fits_int64_def)
  then have f: "\<forall>u\<in>set (map fst ?cs). fits_int64 (get_credits_sync db_gift u + amount ?r)"
    by simp
  have ne: "?cs \<noteq> []" by simp
  have run: "?s = \<lparr>DB_LOCK = False,
      DB = \<lparr>users = [7 \<mapsto> \<lparr>credits = 3, last_topup_date = Some ''2024-05-01''\<rparr>,
                      8 \<mapsto> \<lparr>credits = 100, last_topup_date = None\<rparr>],
            codes = [''abc'' \<mapsto> \<lparr>amount = 100, created_by = 1,
                       created_at = ''2024-05-01T10:00:00'',
                       used_by = Some 8, used_at = Some ''2024-05-02T08:00:01''\<rparr>]\<rparr>,
      calls = [\<lparr>caller = 7, clock = ''2024-05-02T08:00:00'',
                phase = Finished (Inr (False, Msg ''Code already used''))\<rparr>,
               \<lparr>caller = 8, clock = ''2024-05-02T08:00:01'',
                phase = Finished (Inr (True, Amount 100))\<rparr>]\<rparr>"
    by (simp add: run_schedule_def start_def step_call_def db_gift_def
          redeem_code_sync_def fits_int64_def Let_def)
  have a: "all_finished ?s" by (simp add: run all_finished_def)
  from concurrent_redeem_once [OF c u f ne a]
  have e: "\<exists>w<2. phase (calls ?s ! w) = Finished (Inr (True, Amount 100))" by auto
  have p: "map phase (calls ?s) =
      [Finished (Inr (False, Msg ''Code already used'')), Finished (Inr (True, Amount 100))]"
    by (simp add: run)
  have b8: "get_credits_sync (DB ?s) 8 = 100" and b7: "get_credits_sync (DB ?s) 7 = 3"
    by (simp_all add: run get_credits_sync_def)
  show ?thesis by (intro conjI c f7 f8 a p b8 b7 e)
qed


end
